theory Spec2Isabelle
  imports Main "HOL-Library.Word"
begin

unbundle bit_operations_syntax

section \<open>Go slices over a store of backing arrays\<close>

text \<open>
  The packet, its header views and the pooled buffer all alias one backing array, and
  \<open>append\<close> either writes in place or moves to a new array. A slice is therefore a
  descriptor (backing array, first cell, length, capacity) and the bytes live in a store
  of backing arrays, addressed by their position in the store.
\<close>

type_synonym byte = "8 word"
type_synonym mem = "byte list list"

record slice =
  arr :: nat
  off :: nat
  len :: nat
  cap :: nat

datatype error =
    Panic
  | HandleClosed
  | DriverError nat
  | ProtocolNotSupported byte
  | HeaderError nat

text \<open>The nil slice: length and capacity 0.\<close>

definition nil_slice :: slice where
  "nil_slice = \<lparr>arr = 0, off = 0, len = 0, cap = 0\<rparr>"

text \<open>The bytes a slice shows: \<open>len\<close> cells of its array, from \<open>off\<close>.\<close>

definition cells :: "mem \<Rightarrow> slice \<Rightarrow> byte list" where
  "cells m s = take (len s) (drop (off s) (m ! arr s))"

text \<open>\<open>s[i]\<close> as a read and as a write: Go panics when \<open>i\<close> is not below the length.\<close>

definition index :: "mem \<Rightarrow> slice \<Rightarrow> nat \<Rightarrow> byte option" where
  "index m s i = (if i < len s then Some (m ! arr s ! (off s + i)) else None)"

definition store :: "mem \<Rightarrow> slice \<Rightarrow> nat \<Rightarrow> byte \<Rightarrow> mem option" where
  "store m s i b =
     (if i < len s then Some (m[arr s := (m ! arr s)[off s + i := b]]) else None)"

text \<open>
  \<open>s[lo:hi]\<close>: Go checks \<open>lo \<le> hi \<le> cap(s)\<close>, so a slice can be extended past its length
  up to its capacity. \<open>s[lo:]\<close> is \<open>s[lo:len(s)]\<close> and \<open>s[:hi]\<close> is \<open>s[0:hi]\<close>.
\<close>

definition reslice :: "slice \<Rightarrow> nat \<Rightarrow> nat \<Rightarrow> slice option" where
  "reslice s lo hi =
     (if lo \<le> hi \<and> hi \<le> cap s
      then Some \<lparr>arr = arr s, off = off s + lo, len = hi - lo, cap = cap s - lo\<rparr>
      else None)"

definition slice_from :: "slice \<Rightarrow> nat \<Rightarrow> slice option" where
  "slice_from s lo = reslice s lo (len s)"

definition slice_to :: "slice \<Rightarrow> nat \<Rightarrow> slice option" where
  "slice_to s hi = reslice s 0 hi"

text \<open>Overwriting the cells of one array from position \<open>pos\<close> on; the array keeps its size.\<close>

definition blit :: "byte list \<Rightarrow> nat \<Rightarrow> byte list \<Rightarrow> byte list" where
  "blit xs pos bs = take pos xs @ take (length xs - pos) bs @ drop (pos + length bs) xs"

definition put_bytes :: "mem \<Rightarrow> slice \<Rightarrow> byte list \<Rightarrow> mem" where
  "put_bytes m s bs = m[arr s := blit (m ! arr s) (off s) bs]"

text \<open>
  The builtin \<open>copy(dst, src)\<close> moves \<open>min(len(dst), len(src))\<close> bytes; the source is read
  before the destination is written, as for overlapping slices in Go.
\<close>

definition copy_slice :: "mem \<Rightarrow> slice \<Rightarrow> slice \<Rightarrow> mem" where
  "copy_slice m dst src = put_bytes m dst (take (len dst) (cells m src))"

text \<open>
  The builtin \<open>append(s, val...)\<close>: in place when the capacity suffices, else into a new
  backing array. The new array is given exactly the needed capacity; Go may round it up.
\<close>

definition append_slice :: "mem \<Rightarrow> slice \<Rightarrow> slice \<Rightarrow> mem \<times> slice" where
  "append_slice m s v =
     (let n = len s + len v in
      if n \<le> cap s
      then (m[arr s := blit (m ! arr s) (off s + len s) (cells m v)], s\<lparr>len := n\<rparr>)
      else (m @ [cells m s @ cells m v], \<lparr>arr = length m, off = 0, len = n, cap = n\<rparr>))"

text \<open>\<open>encoding/binary\<close>, big endian: both check the last index they touch first.\<close>

definition Uint16 :: "mem \<Rightarrow> slice \<Rightarrow> 16 word option" where
  "Uint16 m b =
     (case (index m b 1, index m b 0) of
        (Some b1, Some b0) \<Rightarrow> Some (ucast b1 OR push_bit 8 (ucast b0))
      | _ \<Rightarrow> None)"

definition PutUint16 :: "mem \<Rightarrow> slice \<Rightarrow> 16 word \<Rightarrow> mem option" where
  "PutUint16 m b v =
     (if 1 < len b then Some (put_bytes m b [ucast (drop_bit 8 v), ucast v]) else None)"

definition PutUint32 :: "mem \<Rightarrow> slice \<Rightarrow> 32 word \<Rightarrow> mem option" where
  "PutUint32 m b v =
     (if 3 < len b
      then Some (put_bytes m b
             [ucast (drop_bit 24 v), ucast (drop_bit 16 v), ucast (drop_bit 8 v), ucast v])
      else None)"

section \<open>header/tcp.go\<close>

record TCPHeader =
  Raw :: slice
  Modified :: bool
  Payload :: slice

definition NewTCPHeader :: "mem \<Rightarrow> slice \<Rightarrow> error + TCPHeader" where
  "NewTCPHeader m raw =
     (case index m raw 12 of
        None \<Rightarrow> Inl Panic
      | Some b \<Rightarrow>
          (let hdrLen = unat (drop_bit 4 b * 4) in
           case slice_from raw hdrLen of
             None \<Rightarrow> Inl Panic
           | Some pl \<Rightarrow> Inr \<lparr>Raw = raw, Modified = False, Payload = pl\<rparr>))"

definition GetPayload :: "TCPHeader \<Rightarrow> slice" where
  "GetPayload h = Payload h"

definition SetPayload :: "mem \<Rightarrow> TCPHeader \<Rightarrow> slice \<Rightarrow> error + mem \<times> TCPHeader" where
  "SetPayload m h val =
     (case index m (TCPHeader.Raw h) 12 of
        None \<Rightarrow> Inl Panic
      | Some b \<Rightarrow>
          (let hdrLen = unat (drop_bit 4 b * 4) in
           if len val = len (Payload h)
           then (case slice_from (TCPHeader.Raw h) hdrLen of
                   None \<Rightarrow> Inl Panic
                 | Some dst \<Rightarrow>
                     Inr (copy_slice m dst val, h\<lparr>Payload := val, Modified := True\<rparr>))
           else (case slice_to (TCPHeader.Raw h) hdrLen of
                   None \<Rightarrow> Inl Panic
                 | Some pre \<Rightarrow>
                     (let (m', r) = append_slice m pre val in
                      Inr (m', h\<lparr>TCPHeader.Raw := r, Payload := val, Modified := True\<rparr>)))))"

definition TCP_SrcPort :: "mem \<Rightarrow> TCPHeader \<Rightarrow> error + 16 word" where
  "TCP_SrcPort m h =
     (case reslice (TCPHeader.Raw h) 0 2 of
        None \<Rightarrow> Inl Panic
      | Some b \<Rightarrow> (case Uint16 m b of None \<Rightarrow> Inl Panic | Some v \<Rightarrow> Inr v))"

definition TCP_DstPort :: "mem \<Rightarrow> TCPHeader \<Rightarrow> error + 16 word" where
  "TCP_DstPort m h =
     (case reslice (TCPHeader.Raw h) 2 4 of
        None \<Rightarrow> Inl Panic
      | Some b \<Rightarrow> (case Uint16 m b of None \<Rightarrow> Inl Panic | Some v \<Rightarrow> Inr v))"

definition TCP_SetSrcPort :: "mem \<Rightarrow> TCPHeader \<Rightarrow> 16 word \<Rightarrow> error + mem \<times> TCPHeader" where
  "TCP_SetSrcPort m h port =
     (let h1 = h\<lparr>Modified := True\<rparr> in
      case store m (TCPHeader.Raw h1) 0 (ucast (drop_bit 8 port)) of
        None \<Rightarrow> Inl Panic
      | Some m1 \<Rightarrow>
          (case store m1 (TCPHeader.Raw h1) 1 (ucast (port AND 0xff)) of
             None \<Rightarrow> Inl Panic
           | Some m2 \<Rightarrow> Inr (m2, h1)))"

definition TCP_SetDstPort :: "mem \<Rightarrow> TCPHeader \<Rightarrow> 16 word \<Rightarrow> error + mem \<times> TCPHeader" where
  "TCP_SetDstPort m h port =
     (let h1 = h\<lparr>Modified := True\<rparr> in
      case store m (TCPHeader.Raw h1) 2 (ucast (drop_bit 8 port)) of
        None \<Rightarrow> Inl Panic
      | Some m1 \<Rightarrow>
          (case store m1 (TCPHeader.Raw h1) 3 (ucast (port AND 0xff)) of
             None \<Rightarrow> Inl Panic
           | Some m2 \<Rightarrow> Inr (m2, h1)))"

definition SetSeqNum :: "mem \<Rightarrow> TCPHeader \<Rightarrow> 32 word \<Rightarrow> error + mem \<times> TCPHeader" where
  "SetSeqNum m h seqNum =
     (let h1 = h\<lparr>Modified := True\<rparr> in
      case reslice (TCPHeader.Raw h1) 4 8 of
        None \<Rightarrow> Inl Panic
      | Some b \<Rightarrow>
          (case PutUint32 m b seqNum of None \<Rightarrow> Inl Panic | Some m1 \<Rightarrow> Inr (m1, h1)))"

definition SetAckNum :: "mem \<Rightarrow> TCPHeader \<Rightarrow> 32 word \<Rightarrow> error + mem \<times> TCPHeader" where
  "SetAckNum m h ackNum =
     (let h1 = h\<lparr>Modified := True\<rparr> in
      case reslice (TCPHeader.Raw h1) 8 12 of
        None \<Rightarrow> Inl Panic
      | Some b \<Rightarrow>
          (case PutUint32 m b ackNum of None \<Rightarrow> Inl Panic | Some m1 \<Rightarrow> Inr (m1, h1)))"

definition TCP_NeedNewChecksum :: "TCPHeader \<Rightarrow> bool" where
  "TCP_NeedNewChecksum h = Modified h"

section \<open>The header package's other views\<close>

text \<open>
  Of the header package only \<open>tcp.go\<close> is at hand. The IP, UDP and ICMP views, the protocol
  numbers and the fixed header lengths are modelled from the specification: a view is a
  byte region of the packet (\<open>Raw\<close>) and a \<open>Modified\<close> flag.
\<close>

record HeaderView =
  Raw :: slice
  Modified :: bool

datatype IPHeader = IPv4Header HeaderView | IPv6Header HeaderView

datatype ProtocolHeader =
    ICMPv4Header HeaderView
  | TCP TCPHeader
  | UDPHeader HeaderView
  | ICMPv6Header HeaderView

text \<open>Modelled from the spec: the protocol numbers ICMPv4=1, TCP=6, UDP=17, ICMPv6=58
  of the absent constants of the header package.\<close>

definition ICMPv4 :: byte where "ICMPv4 = 1"
definition TCP_proto :: byte where "TCP_proto = 6"
definition UDP :: byte where "UDP = 17"
definition ICMPv6 :: byte where "ICMPv6 = 58"

text \<open>Modelled from the spec: the absent constants \<open>ICMPv4HeaderLen\<close>, \<open>UDPHeaderLen\<close> and
  \<open>ICMPv6HeaderLen\<close>, the fixed protocol-standard header lengths.\<close>

definition ICMPv4HeaderLen :: nat where "ICMPv4HeaderLen = 8"
definition UDPHeaderLen :: nat where "UDPHeaderLen = 8"
definition ICMPv6HeaderLen :: nat where "ICMPv6HeaderLen = 8"

text \<open>Modelled from the spec: the absent \<open>NewIPv4Header\<close>; the view is the byte sub-slice the
  header occupies, its length read from the low nibble of byte 0.\<close>

definition NewIPv4Header :: "mem \<Rightarrow> slice \<Rightarrow> error + HeaderView" where
  "NewIPv4Header m raw =
     (case index m raw 0 of
        None \<Rightarrow> Inl Panic
      | Some b \<Rightarrow>
          (case slice_to raw (unat (push_bit 2 (b AND 0xf))) of
             None \<Rightarrow> Inl Panic
           | Some r \<Rightarrow> Inr \<lparr>Raw = r, Modified = False\<rparr>))"

text \<open>Modelled from the spec: the absent \<open>NewIPv6Header\<close>; a fixed 40-byte header.\<close>

definition NewIPv6Header :: "mem \<Rightarrow> slice \<Rightarrow> error + HeaderView" where
  "NewIPv6Header m raw =
     (case slice_to raw 40 of
        None \<Rightarrow> Inl Panic
      | Some r \<Rightarrow> Inr \<lparr>Raw = r, Modified = False\<rparr>)"

text \<open>Modelled from the spec: the absent constructors of the fixed-length views
  (\<open>NewICMPv4Header\<close>, \<open>NewUDPHeader\<close>, \<open>NewICMPv6Header\<close>) keep the region they are given.\<close>

definition NewFixedHeader :: "slice \<Rightarrow> HeaderView" where
  "NewFixedHeader raw = \<lparr>Raw = raw, Modified = False\<rparr>"

text \<open>Modelled from the spec: the absent \<open>IPv4Header.TotalLen\<close> and \<open>IPv4Header.SetTotalLen\<close>;
  the total length is the big-endian 16-bit value at bytes 2 and 3 of the header, and a
  setter raises \<open>Modified\<close> and writes inside the header's length.\<close>

definition TotalLen :: "mem \<Rightarrow> HeaderView \<Rightarrow> error + 16 word" where
  "TotalLen m h =
     (case reslice (HeaderView.Raw h) 2 4 of
        None \<Rightarrow> Inl Panic
      | Some b \<Rightarrow> (case Uint16 m b of None \<Rightarrow> Inl Panic | Some v \<Rightarrow> Inr v))"

definition SetTotalLen :: "mem \<Rightarrow> HeaderView \<Rightarrow> 16 word \<Rightarrow> error + mem \<times> HeaderView" where
  "SetTotalLen m h totalLen =
     (let h1 = h\<lparr>HeaderView.Modified := True\<rparr> in
      case store m (HeaderView.Raw h1) 2 (ucast (drop_bit 8 totalLen)) of
        None \<Rightarrow> Inl Panic
      | Some m1 \<Rightarrow>
          (case store m1 (HeaderView.Raw h1) 3 (ucast (totalLen AND 0xff)) of
             None \<Rightarrow> Inl Panic
           | Some m2 \<Rightarrow> Inr (m2, h1)))"

text \<open>Modelled from the spec: the absent \<open>NeedNewChecksum\<close> of the IP, UDP and ICMP views
  reports the \<open>Modified\<close> flag, as the one of \<open>tcp.go\<close> does.\<close>

definition IP_NeedNewChecksum :: "IPHeader \<Rightarrow> bool" where
  "IP_NeedNewChecksum h =
     (case h of IPv4Header v \<Rightarrow> HeaderView.Modified v | IPv6Header v \<Rightarrow> HeaderView.Modified v)"

definition NeedNewChecksum :: "ProtocolHeader \<Rightarrow> bool" where
  "NeedNewChecksum h =
     (case h of
        ICMPv4Header v \<Rightarrow> HeaderView.Modified v
      | TCP t \<Rightarrow> TCP_NeedNewChecksum t
      | UDPHeader v \<Rightarrow> HeaderView.Modified v
      | ICMPv6Header v \<Rightarrow> HeaderView.Modified v)"

text \<open>
  The port accessors of the UDP and ICMP views are not at hand either and the
  specification does not fix them; they are parameters. An error of theirs is a number,
  passed on as \<open>HeaderError\<close>.
\<close>

type_synonym port_getter = "mem \<Rightarrow> ProtocolHeader \<Rightarrow> nat + 16 word"
type_synonym port_setter =
  "mem \<Rightarrow> ProtocolHeader \<Rightarrow> 16 word \<Rightarrow> nat option \<times> mem \<times> ProtocolHeader"

definition lift_getter ::
  "(mem \<Rightarrow> TCPHeader \<Rightarrow> error + 16 word) \<Rightarrow> port_getter \<Rightarrow> mem \<Rightarrow> ProtocolHeader
     \<Rightarrow> error + 16 word" where
  "lift_getter tcp other m h =
     (case h of
        TCP t \<Rightarrow> tcp m t
      | _ \<Rightarrow> (case other m h of Inl e \<Rightarrow> Inl (HeaderError e) | Inr v \<Rightarrow> Inr v))"

definition lift_setter ::
  "(mem \<Rightarrow> TCPHeader \<Rightarrow> 16 word \<Rightarrow> error + mem \<times> TCPHeader) \<Rightarrow> port_setter \<Rightarrow> mem
     \<Rightarrow> ProtocolHeader \<Rightarrow> 16 word \<Rightarrow> error option \<times> mem \<times> ProtocolHeader" where
  "lift_setter tcp other m h port =
     (case h of
        TCP t \<Rightarrow>
          (case tcp m t port of
             Inl e \<Rightarrow> (Some e, m, h)
           | Inr (m', t') \<Rightarrow> (None, m', TCP t'))
      | _ \<Rightarrow> (case other m h port of (e, m', h') \<Rightarrow> (map_option HeaderError e, m', h')))"

section \<open>The packet\<close>

text \<open>Modelled from the spec: the absent \<open>WinDivertAddress\<close>, an opaque metadata record.\<close>

type_synonym WinDivertAddress = nat

record Packet =
  Raw :: slice
  Addr :: WinDivertAddress
  PacketLen :: nat
  IpHdr :: "IPHeader option"
  NextHeader :: "ProtocolHeader option"
  ipVersion :: nat
  hdrLen :: nat
  nextHeaderType :: byte
  parsed :: bool
  Buffer :: slice

text \<open>\<open>ParseHeaders\<close> in two steps; this is its \<open>switch\<close> on the next header type.\<close>

definition ParseNextHeader :: "mem \<Rightarrow> Packet \<Rightarrow> error + ProtocolHeader option" where
  "ParseNextHeader m p =
     (let t = nextHeaderType p; h = hdrLen p in
      if t = ICMPv4 then
        (case reslice (Packet.Raw p) h (h + ICMPv4HeaderLen) of
           None \<Rightarrow> Inl Panic
         | Some r \<Rightarrow> Inr (Some (ICMPv4Header (NewFixedHeader r))))
      else if t = TCP_proto then
        (case slice_from (Packet.Raw p) h of
           None \<Rightarrow> Inl Panic
         | Some r \<Rightarrow>
             (case NewTCPHeader m r of Inl e \<Rightarrow> Inl e | Inr th \<Rightarrow> Inr (Some (TCP th))))
      else if t = UDP then
        (case reslice (Packet.Raw p) h (h + UDPHeaderLen) of
           None \<Rightarrow> Inl Panic
         | Some r \<Rightarrow> Inr (Some (UDPHeader (NewFixedHeader r))))
      else if t = ICMPv6 then
        (case reslice (Packet.Raw p) h (h + ICMPv6HeaderLen) of
           None \<Rightarrow> Inl Panic
         | Some r \<Rightarrow> Inr (Some (ICMPv6Header (NewFixedHeader r))))
      else Inr None)"

text \<open>The first statement of \<open>ParseHeaders\<close> and its branch on the IP version.\<close>

definition ParseIPHeader :: "mem \<Rightarrow> Packet \<Rightarrow> error + Packet" where
  "ParseIPHeader m p =
     (case index m (Packet.Raw p) 0 of
        None \<Rightarrow> Inl Panic
      | Some b0 \<Rightarrow>
          (let p1 = p\<lparr>ipVersion := unat (drop_bit 4 b0)\<rparr> in
           if ipVersion p1 = 4
           then (case index m (Packet.Raw p1) 9 of
                   None \<Rightarrow> Inl Panic
                 | Some nh \<Rightarrow>
                     (case NewIPv4Header m (Packet.Raw p1) of
                        Inl e \<Rightarrow> Inl e
                      | Inr v \<Rightarrow>
                          Inr (p1\<lparr>hdrLen := unat (push_bit 2 (b0 AND 0xf)),
                                  nextHeaderType := nh,
                                  IpHdr := Some (IPv4Header v)\<rparr>)))
           else (case index m (Packet.Raw p1) 6 of
                   None \<Rightarrow> Inl Panic
                 | Some nh \<Rightarrow>
                     (case NewIPv6Header m (Packet.Raw p1) of
                        Inl e \<Rightarrow> Inl e
                      | Inr v \<Rightarrow>
                          Inr (p1\<lparr>hdrLen := 40,
                                  nextHeaderType := nh,
                                  IpHdr := Some (IPv6Header v)\<rparr>)))))"

definition ParseHeaders :: "mem \<Rightarrow> Packet \<Rightarrow> error + Packet" where
  "ParseHeaders m p =
     (case ParseIPHeader m p of
        Inl e \<Rightarrow> Inl e
      | Inr p2 \<Rightarrow>
          (case ParseNextHeader m p2 of
             Inl e \<Rightarrow> Inl e
           | Inr nh \<Rightarrow> Inr (p2\<lparr>NextHeader := nh, parsed := True\<rparr>)))"

definition VerifyParsed :: "mem \<Rightarrow> Packet \<Rightarrow> error + Packet" where
  "VerifyParsed m p = (if \<not> parsed p then ParseHeaders m p else Inr p)"

text \<open>
  \<open>UpdateTCPHeader\<close>: the single-valued assertion \<open>p.NextHeader.(header.ProtocolHeader)\<close>
  panics on a nil interface; the comma-ok assertions select the TCP and the IPv4 case.
\<close>

definition UpdateTCPHeader :: "mem \<Rightarrow> Packet \<Rightarrow> error + mem \<times> Packet" where
  "UpdateTCPHeader m p =
     (case NextHeader p of
        None \<Rightarrow> Inl Panic
      | Some (TCP tcpHeader) \<Rightarrow>
          (let val = TCPHeader.Raw tcpHeader in
           case slice_from (Packet.Raw p) (hdrLen p) of
             None \<Rightarrow> Inl Panic
           | Some rest \<Rightarrow>
               if len val = len rest then Inr (copy_slice m rest val, p)
               else
                 (case slice_to (Packet.Raw p) (hdrLen p) of
                    None \<Rightarrow> Inl Panic
                  | Some pre \<Rightarrow>
                      (let (m1, r) = append_slice m pre val;
                           p1 = p\<lparr>Packet.Raw := r\<rparr>
                       in case IpHdr p1 of
                            None \<Rightarrow> Inl Panic
                          | Some (IPv4Header v) \<Rightarrow>
                              (case SetTotalLen m1 v (of_nat (len (Packet.Raw p1))) of
                                 Inl e \<Rightarrow> Inl e
                               | Inr (m2, v') \<Rightarrow>
                                   Inr (m2, p1\<lparr>IpHdr := Some (IPv4Header v'),
                                               PacketLen := len (Packet.Raw p1)\<rparr>))
                          | Some (IPv6Header v) \<Rightarrow>
                              Inr (m1, p1\<lparr>PacketLen := len (Packet.Raw p1)\<rparr>))))
      | Some _ \<Rightarrow> Inr (m, p))"

definition Packet_NextHeaderType :: "mem \<Rightarrow> Packet \<Rightarrow> (error + byte) \<times> Packet" where
  "Packet_NextHeaderType m p =
     (case VerifyParsed m p of
        Inl e \<Rightarrow> (Inl e, p)
      | Inr p1 \<Rightarrow> (Inr (nextHeaderType p1), p1))"

definition Packet_SrcPort :: "port_getter \<Rightarrow> mem \<Rightarrow> Packet \<Rightarrow> (error + 16 word) \<times> Packet" where
  "Packet_SrcPort other m p =
     (case VerifyParsed m p of
        Inl e \<Rightarrow> (Inl e, p)
      | Inr p1 \<Rightarrow>
          (case NextHeader p1 of
             None \<Rightarrow> (Inl (ProtocolNotSupported (nextHeaderType p1)), p1)
           | Some h \<Rightarrow> (lift_getter TCP_SrcPort other m h, p1)))"

definition Packet_DstPort :: "port_getter \<Rightarrow> mem \<Rightarrow> Packet \<Rightarrow> (error + 16 word) \<times> Packet" where
  "Packet_DstPort other m p =
     (case VerifyParsed m p of
        Inl e \<Rightarrow> (Inl e, p)
      | Inr p1 \<Rightarrow>
          (case NextHeader p1 of
             None \<Rightarrow> (Inl (ProtocolNotSupported (nextHeaderType p1)), p1)
           | Some h \<Rightarrow> (lift_getter TCP_DstPort other m h, p1)))"

definition Packet_SetSrcPort ::
  "port_setter \<Rightarrow> mem \<Rightarrow> Packet \<Rightarrow> 16 word \<Rightarrow> error option \<times> mem \<times> Packet" where
  "Packet_SetSrcPort other m p port =
     (case VerifyParsed m p of
        Inl e \<Rightarrow> (Some e, m, p)
      | Inr p1 \<Rightarrow>
          (case NextHeader p1 of
             None \<Rightarrow> (Some (ProtocolNotSupported (nextHeaderType p1)), m, p1)
           | Some h \<Rightarrow>
               (case lift_setter TCP_SetSrcPort other m h port of
                  (e, m', h') \<Rightarrow> (e, m', p1\<lparr>NextHeader := Some h'\<rparr>))))"

definition Packet_SetDstPort ::
  "port_setter \<Rightarrow> mem \<Rightarrow> Packet \<Rightarrow> 16 word \<Rightarrow> error option \<times> mem \<times> Packet" where
  "Packet_SetDstPort other m p port =
     (case VerifyParsed m p of
        Inl e \<Rightarrow> (Some e, m, p)
      | Inr p1 \<Rightarrow>
          (case NextHeader p1 of
             None \<Rightarrow> (Some (ProtocolNotSupported (nextHeaderType p1)), m, p1)
           | Some h \<Rightarrow>
               (case lift_setter TCP_SetDstPort other m h port of
                  (e, m', h') \<Rightarrow> (e, m', p1\<lparr>NextHeader := Some h'\<rparr>))))"

text \<open>
  \<open>SetSrcIP\<close> and \<open>SetDstIP\<close> hand the address to the IP view, whose setters are not at
  hand: the setter is a parameter that may rewrite the store and the view.
\<close>

type_synonym ip_setter = "mem \<Rightarrow> IPHeader \<Rightarrow> byte list \<Rightarrow> mem \<times> IPHeader"

definition Packet_SetIP :: "ip_setter \<Rightarrow> mem \<Rightarrow> Packet \<Rightarrow> byte list \<Rightarrow> error + mem \<times> Packet" where
  "Packet_SetIP setter m p ip =
     (case VerifyParsed m p of
        Inl e \<Rightarrow> Inl e
      | Inr p1 \<Rightarrow>
          (case IpHdr p1 of
             None \<Rightarrow> Inl Panic
           | Some h \<Rightarrow>
               (case setter m h ip of (m', h') \<Rightarrow> Inr (m', p1\<lparr>IpHdr := Some h'\<rparr>))))"

section \<open>The buffer pool\<close>

definition PacketBufferSize :: nat where
  "PacketBufferSize = 65575"

text \<open>
  The program state beyond one packet: the backing arrays, the buffers held by the
  \<open>sync.Pool\<close>, and the lines printed to standard output.
\<close>

record world =
  heap :: mem
  pool :: "slice list"
  out :: "(string \<times> error) list"

text \<open>
  \<open>sync.Pool.Get\<close> hands out an arbitrary pooled item, or calls \<open>New\<close> when it finds none
  (it may ignore the pool). The choice is the parameter \<open>sel\<close>: a position in the pool,
  or any other number for a new zeroed buffer.
\<close>

definition GetBuffer :: "nat \<Rightarrow> world \<Rightarrow> slice \<times> world" where
  "GetBuffer sel w =
     (if sel < length (pool w)
      then (pool w ! sel, w\<lparr>pool := take sel (pool w) @ drop (Suc sel) (pool w)\<rparr>)
      else (\<lparr>arr = length (heap w), off = 0, len = PacketBufferSize, cap = PacketBufferSize\<rparr>,
            w\<lparr>heap := heap w @ [replicate PacketBufferSize 0]\<rparr>))"

text \<open>The loop \<open>for i := 0; i < length; i++ { buffer[i] = 0 }\<close>.\<close>

function zero_loop :: "mem \<Rightarrow> slice \<Rightarrow> int \<Rightarrow> int \<Rightarrow> error + mem" where
  "zero_loop m buffer i usedLength =
     (if i < usedLength
      then (case store m buffer (nat i) 0 of
              None \<Rightarrow> Inl Panic
            | Some m' \<Rightarrow> zero_loop m' buffer (i + 1) usedLength)
      else Inr m)"
  by pat_completeness auto
termination
  by (relation "measure (\<lambda>(m, buffer, i, usedLength). nat (usedLength - i))") auto

declare zero_loop.simps [simp del]

definition ReturnBuffer :: "world \<Rightarrow> slice \<Rightarrow> int \<Rightarrow> error + world" where
  "ReturnBuffer w buffer usedLength =
     (if len buffer = PacketBufferSize
      then (case zero_loop (heap w) buffer 0 usedLength of
              Inl e \<Rightarrow> Inl e
            | Inr m \<Rightarrow> Inr (w\<lparr>heap := m, pool := buffer # pool w\<rparr>))
      else Inr w)"

section \<open>The capture session\<close>

record WinDivertHandle =
  handle :: nat
  "open" :: bool

text \<open>
  The driver is outside the program. What one call of it reports, and what it leaves in
  the memory it was given, is a parameter of the operation that calls it.
\<close>

record recv_reply =
  recv_success :: nat
  recv_err :: nat
  recv_bytes :: "byte list"
  recv_len :: nat
  recv_addr :: WinDivertAddress

record send_reply =
  send_success :: nat
  send_err :: nat
  send_len :: nat

record calc_reply =
  calc_success :: nat
  calc_err :: nat
  calc_bytes :: "byte list"
  calc_len :: nat

definition Recv :: "nat \<Rightarrow> world \<Rightarrow> WinDivertHandle \<Rightarrow> recv_reply \<Rightarrow> (error + Packet) \<times> world" where
  "Recv sel w wd r =
     (if \<not> open wd then (Inl HandleClosed, w)
      else
        (let (packetBuffer, w1) = GetBuffer sel w in
         case index (heap w1) packetBuffer 0 of
           None \<Rightarrow> (Inl Panic, w1)
         | Some _ \<Rightarrow>
             (let w2 = w1\<lparr>heap := put_bytes (heap w1) packetBuffer
                                    (take PacketBufferSize (recv_bytes r))\<rparr>
              in if recv_success r = 0 then (Inl (DriverError (recv_err r)), w2)
                 else
                   (case slice_to packetBuffer (recv_len r) of
                      None \<Rightarrow> (Inl Panic, w2)
                    | Some raw \<Rightarrow>
                        (Inr \<lparr>Raw = raw, Addr = recv_addr r, PacketLen = recv_len r,
                              IpHdr = None, NextHeader = None, ipVersion = 0, hdrLen = 0,
                              nextHeaderType = 0, parsed = False,
                              Buffer = packetBuffer\<rparr>, w2)))))"

text \<open>Modelled from the spec: the absent \<open>getBuffer\<close> gives the pooled buffer the packet was
  received into.\<close>

definition getBuffer :: "Packet \<Rightarrow> slice" where
  "getBuffer p = Buffer p"

definition Send :: "world \<Rightarrow> WinDivertHandle \<Rightarrow> Packet \<Rightarrow> send_reply \<Rightarrow> (error + nat) \<times> world" where
  "Send w wd packet r =
     (if \<not> open wd then (Inl HandleClosed, w)
      else
        (case index (heap w) (Packet.Raw packet) 0 of
           None \<Rightarrow> (Inl Panic, w)
         | Some _ \<Rightarrow>
             (case ReturnBuffer w (getBuffer packet) (int (PacketLen packet)) of
                Inl e \<Rightarrow> (Inl e, w)
              | Inr w1 \<Rightarrow>
                  if send_success r = 0 then (Inl (DriverError (send_err r)), w1)
                  else (Inr (send_len r), w1))))"

text \<open>
  \<open>HelperCalcChecksum\<close>: the routine rewrites the packet's bytes in place and may leave
  another value in \<open>PacketLen\<close>; the function puts the length it saved back.
\<close>

definition HelperCalcChecksum ::
  "mem \<Rightarrow> Packet \<Rightarrow> calc_reply \<Rightarrow> error option \<times> mem \<times> Packet" where
  "HelperCalcChecksum m packet r =
     (let initialPacketLen = PacketLen packet in
      case index m (Packet.Raw packet) 0 of
        None \<Rightarrow> (Some Panic, m, packet)
      | Some _ \<Rightarrow>
          (let m1 = put_bytes m (Packet.Raw packet) (take (PacketLen packet) (calc_bytes r));
               p1 = packet\<lparr>PacketLen := calc_len r\<rparr>;
               p2 = (if initialPacketLen \<noteq> PacketLen p1
                     then p1\<lparr>PacketLen := initialPacketLen\<rparr> else p1)
           in (if calc_success r = 0 then Some (DriverError (calc_err r)) else None, m1, p2)))"



section \<open>Replacing the TCP payload\<close>

text \<open>
  Replacing the payload of a TCP packet, as a caller does it: \<open>SetPayload\<close> on the packet's
  TCP view, then \<open>UpdateTCPHeader\<close> on the packet.
\<close>

definition ReplacePayload :: "mem \<Rightarrow> Packet \<Rightarrow> slice \<Rightarrow> error + mem \<times> Packet" where
  "ReplacePayload m p val =
     (case NextHeader p of
        Some (TCP t) \<Rightarrow>
          (case SetPayload m t val of
             Inl e \<Rightarrow> Inl e
           | Inr (m1, t1) \<Rightarrow> UpdateTCPHeader m1 (p\<lparr>NextHeader := Some (TCP t1)\<rparr>))
      | _ \<Rightarrow> Inl Panic)"

text \<open>Modelled from the spec: the total-length field of a packet is the big-endian 16-bit
  value at bytes 2 and 3 of its \<open>Raw\<close>, which begins at byte 0 of the IP header. It is read
  from the packet's own bytes, \<open>binary.BigEndian.Uint16(p.Raw[2:4])\<close>, not through a view.\<close>

definition total_length_field :: "mem \<Rightarrow> Packet \<Rightarrow> error + 16 word" where
  "total_length_field m p =
     (case reslice (Packet.Raw p) 2 4 of
        None \<Rightarrow> Inl Panic
      | Some b \<Rightarrow> (case Uint16 m b of None \<Rightarrow> Inl Panic | Some v \<Rightarrow> Inr v))"

text \<open>
  An IPv4+TCP packet whose views are in step with \<open>Raw\<close>, as \<open>ParseHeaders\<close> makes them:
  the IPv4 view is \<open>Raw[:hdrLen]\<close>, the TCP view's \<open>Raw\<close> is \<open>Raw[hdrLen:]\<close>, and \<open>Payload\<close> is
  as long as what follows the TCP header there. After \<open>SetPayload\<close> with another length,
  and before \<open>UpdateTCPHeader\<close>, the views are out of step.
\<close>

definition views_in_step :: "mem \<Rightarrow> Packet \<Rightarrow> bool" where
  "views_in_step m p =
     (case (IpHdr p, NextHeader p) of
        (Some (IPv4Header v), Some (TCP t)) \<Rightarrow>
            len (Packet.Raw p) \<le> cap (Packet.Raw p)
          \<and> slice_to (Packet.Raw p) (hdrLen p) = Some (HeaderView.Raw v)
          \<and> slice_from (Packet.Raw p) (hdrLen p) = Some (TCPHeader.Raw t)
          \<and> (case index m (TCPHeader.Raw t) 12 of
                None \<Rightarrow> False
              | Some b \<Rightarrow>
                  (case slice_from (TCPHeader.Raw t) (unat (drop_bit 4 b * 4)) of
                     None \<Rightarrow> False
                   | Some pl \<Rightarrow> len (Payload t) = len pl))
      | _ \<Rightarrow> False)"

text \<open>What is observed after a replacement: \<open>len(Raw)\<close>, \<open>PacketLen\<close>, the total-length field.\<close>

definition replaced_lengths ::
  "error + mem \<times> Packet \<Rightarrow> error + nat \<times> nat \<times> (error + 16 word)" where
  "replaced_lengths r =
     (case r of
        Inl e \<Rightarrow> Inl e
      | Inr (m, p) \<Rightarrow> Inr (len (Packet.Raw p), PacketLen p, total_length_field m p))"

section \<open>The packets a program can hold\<close>

text \<open>
  A packet comes from \<open>Recv\<close> and is then changed only through the public operations:
  parsing, the port and address accessors, the setters of its TCP view, the payload
  replacement, \<open>UpdateTCPHeader\<close> and the checksum helper.
\<close>

inductive reachable :: "mem \<Rightarrow> Packet \<Rightarrow> bool" where
  r_recv: "Recv sel w wd r = (Inr p, w') \<Longrightarrow> reachable (heap w') p"
| r_parse: "reachable m p \<Longrightarrow> ParseHeaders m p = Inr p' \<Longrightarrow> reachable m p'"
| r_verify: "reachable m p \<Longrightarrow> VerifyParsed m p = Inr p' \<Longrightarrow> reachable m p'"
| r_src_port: "reachable m p \<Longrightarrow> Packet_SrcPort g m p = (res, p') \<Longrightarrow> reachable m p'"
| r_dst_port: "reachable m p \<Longrightarrow> Packet_DstPort g m p = (res, p') \<Longrightarrow> reachable m p'"
| r_set_src_port:
    "reachable m p \<Longrightarrow> Packet_SetSrcPort st m p port = (e, m', p') \<Longrightarrow> reachable m' p'"
| r_set_dst_port:
    "reachable m p \<Longrightarrow> Packet_SetDstPort st m p port = (e, m', p') \<Longrightarrow> reachable m' p'"
| r_set_ip: "reachable m p \<Longrightarrow> Packet_SetIP ist m p ip = Inr (m', p') \<Longrightarrow> reachable m' p'"
| r_tcp_src_port:
    "reachable m p \<Longrightarrow> NextHeader p = Some (TCP t) \<Longrightarrow> TCP_SetSrcPort m t port = Inr (m', t')
       \<Longrightarrow> reachable m' (p\<lparr>NextHeader := Some (TCP t')\<rparr>)"
| r_tcp_dst_port:
    "reachable m p \<Longrightarrow> NextHeader p = Some (TCP t) \<Longrightarrow> TCP_SetDstPort m t port = Inr (m', t')
       \<Longrightarrow> reachable m' (p\<lparr>NextHeader := Some (TCP t')\<rparr>)"
| r_tcp_seq:
    "reachable m p \<Longrightarrow> NextHeader p = Some (TCP t) \<Longrightarrow> SetSeqNum m t sq = Inr (m', t')
       \<Longrightarrow> reachable m' (p\<lparr>NextHeader := Some (TCP t')\<rparr>)"
| r_tcp_ack:
    "reachable m p \<Longrightarrow> NextHeader p = Some (TCP t) \<Longrightarrow> SetAckNum m t ak = Inr (m', t')
       \<Longrightarrow> reachable m' (p\<lparr>NextHeader := Some (TCP t')\<rparr>)"
| r_tcp_payload:
    "reachable m p \<Longrightarrow> NextHeader p = Some (TCP t) \<Longrightarrow> SetPayload m t val = Inr (m', t')
       \<Longrightarrow> reachable m' (p\<lparr>NextHeader := Some (TCP t')\<rparr>)"
| r_update: "reachable m p \<Longrightarrow> UpdateTCPHeader m p = Inr (m', p') \<Longrightarrow> reachable m' p'"
| r_checksum: "reachable m p \<Longrightarrow> HelperCalcChecksum m p cr = (e, m', p') \<Longrightarrow> reachable m' p'"

section \<open>Example states\<close>

text \<open>
  A 44-byte IPv4 packet in a pooled buffer: a 20-byte IP header with protocol 6, a
  20-byte TCP header from port 1234 to port 80, and the payload 1, 2, 3, 4.
\<close>

definition ex_bytes :: "byte list" where
  "ex_bytes =
     [0x45, 0, 0, 44, 0, 0, 0, 0, 64, 6, 0, 0, 10, 0, 0, 1, 10, 0, 0, 2,
      0x04, 0xD2, 0, 80, 0, 0, 0, 1, 0, 0, 0, 0, 0x50, 0x10, 0xFF, 0xFF, 0, 0, 0, 0,
      1, 2, 3, 4]"

definition ex_mem :: mem where
  "ex_mem = [ex_bytes @ replicate 65531 0]"

definition ex_buffer :: slice where
  "ex_buffer = \<lparr>arr = 0, off = 0, len = 65575, cap = 65575\<rparr>"

definition ex_packet :: Packet where
  "ex_packet = \<lparr>Raw = \<lparr>arr = 0, off = 0, len = 44, cap = 65575\<rparr>, Addr = 0, PacketLen = 44,
     IpHdr = None, NextHeader = None, ipVersion = 0, hdrLen = 0, nextHeaderType = 0,
     parsed = False, Buffer = ex_buffer\<rparr>"

definition ex_ip :: HeaderView where
  "ex_ip = \<lparr>HeaderView.Raw = \<lparr>arr = 0, off = 0, len = 20, cap = 65575\<rparr>,
     HeaderView.Modified = False\<rparr>"

definition ex_tcp :: TCPHeader where
  "ex_tcp = \<lparr>TCPHeader.Raw = \<lparr>arr = 0, off = 20, len = 24, cap = 65555\<rparr>,
     TCPHeader.Modified = False,
     TCPHeader.Payload = \<lparr>arr = 0, off = 40, len = 4, cap = 65535\<rparr>\<rparr>"

definition ex_parsed :: Packet where
  "ex_parsed = ex_packet\<lparr>IpHdr := Some (IPv4Header ex_ip), NextHeader := Some (TCP ex_tcp),
     ipVersion := 4, hdrLen := 20, nextHeaderType := 6, parsed := True\<rparr>"

text \<open>The same bytes with the version nibble 5: neither IPv4 nor IPv6.\<close>

definition ex_v5_mem :: mem where
  "ex_v5_mem = [ex_bytes[0 := 0x55] @ replicate 65531 0]"

definition ex_v5_parsed :: Packet where
  "ex_v5_parsed = ex_packet\<lparr>IpHdr := Some (IPv6Header
       \<lparr>HeaderView.Raw = \<lparr>arr = 0, off = 0, len = 40, cap = 65575\<rparr>,
        HeaderView.Modified = False\<rparr>),
     NextHeader := None, ipVersion := 5, hdrLen := 40, nextHeaderType := 0, parsed := True\<rparr>"

text \<open>The same bytes with the unassigned protocol number 200 in byte 9.\<close>

definition ex_unknown_mem :: mem where
  "ex_unknown_mem = [ex_bytes[9 := 200] @ replicate 65531 0]"

definition ex_unknown_parsed :: Packet where
  "ex_unknown_parsed = ex_packet\<lparr>IpHdr := Some (IPv4Header ex_ip), NextHeader := None,
     ipVersion := 4, hdrLen := 20, nextHeaderType := 200, parsed := True\<rparr>"

text \<open>The parsed example after \<open>SetSrcPort(1234)\<close>: the port it already had.\<close>

definition ex_modified :: Packet where
  "ex_modified = ex_parsed\<lparr>NextHeader := Some (TCP (ex_tcp\<lparr>TCPHeader.Modified := True\<rparr>))\<rparr>"

text \<open>A world holding the example buffer, an open and a closed session, driver replies.\<close>

definition ex_world :: world where
  "ex_world = \<lparr>heap = ex_mem, pool = [], out = []\<rparr>"

definition ex_open :: WinDivertHandle where
  "ex_open = \<lparr>handle = 1, open = True\<rparr>"

definition ex_closed :: WinDivertHandle where
  "ex_closed = \<lparr>handle = 1, open = False\<rparr>"

definition ex_send_ok :: send_reply where
  "ex_send_ok = \<lparr>send_success = 1, send_err = 0, send_len = 44\<rparr>"

definition ex_send_fail :: send_reply where
  "ex_send_fail = \<lparr>send_success = 0, send_err = 5, send_len = 0\<rparr>"


text \<open>
  Two buffers in use, both written by the driver in their first two bytes. The first is
  released with used length 1, the second with used length 2.
\<close>

definition cx_pool_A :: slice where
  "cx_pool_A = \<lparr>arr = 0, off = 0, len = 65575, cap = 65575\<rparr>"

definition cx_pool_B :: slice where
  "cx_pool_B = \<lparr>arr = 1, off = 0, len = 65575, cap = 65575\<rparr>"

definition cx_pool_pre :: world where
  "cx_pool_pre = \<lparr>heap = [[0xFF, 0xFF] @ replicate 65573 0, [0xFF, 0xFF] @ replicate 65573 0],
     pool = [], out = []\<rparr>"

definition cx_pool_mid :: world where
  "cx_pool_mid = \<lparr>heap = [[0, 0xFF] @ replicate 65573 0, [0xFF, 0xFF] @ replicate 65573 0],
     pool = [cx_pool_A], out = []\<rparr>"

definition cx_pool_post :: world where
  "cx_pool_post = \<lparr>heap = [[0, 0xFF] @ replicate 65573 0, [0, 0] @ replicate 65573 0],
     pool = [cx_pool_B, cx_pool_A], out = []\<rparr>"

text \<open>The world before the example packet is received, and what the driver delivers.\<close>

definition ex_empty_world :: world where
  "ex_empty_world = \<lparr>heap = [], pool = [], out = []\<rparr>"

definition ex_recv_reply :: recv_reply where
  "ex_recv_reply = \<lparr>recv_success = 1, recv_err = 0, recv_bytes = ex_bytes, recv_len = 44,
     recv_addr = 0\<rparr>"

text \<open>
  Payloads for the example packet: 65500 bytes in an array of their own, and the first two
  bytes of the payload the packet has.
\<close>

definition cx_big_mem :: mem where
  "cx_big_mem = [ex_bytes @ replicate 65531 0, replicate 65500 7]"

definition cx_big_val :: slice where
  "cx_big_val = \<lparr>arr = 1, off = 0, len = 65500, cap = 65500\<rparr>"

definition ex_short_val :: slice where
  "ex_short_val = \<lparr>arr = 0, off = 40, len = 2, cap = 2\<rparr>"

text \<open>
  The same 44 bytes as a packet a caller built, with no spare capacity, and payloads of 6
  and of 2 bytes in an array of their own. \<open>sm_pending\<close> is that packet after
  \<open>SetPayload\<close> with the 2-byte payload and before \<open>UpdateTCPHeader\<close>.
\<close>

definition sm_mem :: mem where
  "sm_mem = [ex_bytes, [9, 9, 9, 9, 9, 9]]"

definition sm_packet :: Packet where
  "sm_packet = \<lparr>Raw = \<lparr>arr = 0, off = 0, len = 44, cap = 44\<rparr>, Addr = 0, PacketLen = 44,
     IpHdr = None, NextHeader = None, ipVersion = 0, hdrLen = 0, nextHeaderType = 0,
     parsed = False, Buffer = nil_slice\<rparr>"

definition sm_ip :: HeaderView where
  "sm_ip = \<lparr>HeaderView.Raw = \<lparr>arr = 0, off = 0, len = 20, cap = 44\<rparr>,
     HeaderView.Modified = False\<rparr>"

definition sm_tcp :: TCPHeader where
  "sm_tcp = \<lparr>TCPHeader.Raw = \<lparr>arr = 0, off = 20, len = 24, cap = 24\<rparr>,
     TCPHeader.Modified = False,
     TCPHeader.Payload = \<lparr>arr = 0, off = 40, len = 4, cap = 4\<rparr>\<rparr>"

definition sm_parsed :: Packet where
  "sm_parsed = sm_packet\<lparr>IpHdr := Some (IPv4Header sm_ip), NextHeader := Some (TCP sm_tcp),
     ipVersion := 4, hdrLen := 20, nextHeaderType := 6, parsed := True\<rparr>"

definition sm_val6 :: slice where
  "sm_val6 = \<lparr>arr = 1, off = 0, len = 6, cap = 6\<rparr>"

definition sm_val2 :: slice where
  "sm_val2 = \<lparr>arr = 1, off = 0, len = 2, cap = 6\<rparr>"

definition sm_mem_pending :: mem where
  "sm_mem_pending = [ex_bytes[40 := 9, 41 := 9], [9, 9, 9, 9, 9, 9]]"

definition sm_tcp_pending :: TCPHeader where
  "sm_tcp_pending = \<lparr>TCPHeader.Raw = \<lparr>arr = 0, off = 20, len = 22, cap = 24\<rparr>,
     TCPHeader.Modified = True, TCPHeader.Payload = sm_val2\<rparr>"

definition sm_pending :: Packet where
  "sm_pending = sm_parsed\<lparr>NextHeader := Some (TCP sm_tcp_pending)\<rparr>"

section \<open>Parsing\<close>

lemma ihl_times_4: "unat (push_bit 2 (b AND 0xf :: byte)) = unat (b AND 0xf) * 4"
proof -
  have "unat (b AND 0xf) \<le> unat (0xf :: byte)"
    by (rule word_and_le1 [THEN word_le_nat_alt [THEN iffD1]])
  then have "unat (b AND 0xf) \<le> 15" by simp
  then show ?thesis by (simp add: unat_word_ariths push_bit_eq_mult)
qed

lemma ihl_times_4_simp: "unat (push_bit 2 (b :: byte) AND 60) = unat (b AND 0xf) * 4"
  using ihl_times_4[of b] by simp

lemma ParseIPHeader_Inr:
  assumes "ParseIPHeader m p = Inr p2"
  shows "\<exists>b0 nh v. index m (Packet.Raw p) 0 = Some b0 \<and>
      (if unat (drop_bit 4 b0) = 4
       then index m (Packet.Raw p) 9 = Some nh \<and> NewIPv4Header m (Packet.Raw p) = Inr v
          \<and> p2 = p\<lparr>ipVersion := 4, hdrLen := unat (push_bit 2 (b0 AND 0xf)),
                    nextHeaderType := nh, IpHdr := Some (IPv4Header v)\<rparr>
       else index m (Packet.Raw p) 6 = Some nh \<and> NewIPv6Header m (Packet.Raw p) = Inr v
          \<and> p2 = p\<lparr>ipVersion := unat (drop_bit 4 b0), hdrLen := 40,
                    nextHeaderType := nh, IpHdr := Some (IPv6Header v)\<rparr>)"
proof (cases "index m (Packet.Raw p) 0")
  case None
  with assms show ?thesis by (simp add: ParseIPHeader_def)
next
  case (Some b0)
  show ?thesis
  proof (cases "unat (drop_bit 4 b0) = 4")
    case True
    with assms Some show ?thesis
      by (auto simp: ParseIPHeader_def Let_def split: option.splits sum.splits)
  next
    case False
    with assms Some show ?thesis
      by (auto simp: ParseIPHeader_def Let_def split: option.splits sum.splits)
  qed
qed

lemma ParseIPHeader_frame:
  assumes "ParseIPHeader m p = Inr p2"
  shows "Packet.Raw p2 = Packet.Raw p" "PacketLen p2 = PacketLen p" "Buffer p2 = Buffer p"
    "Addr p2 = Addr p" "NextHeader p2 = NextHeader p" "parsed p2 = parsed p"
  using ParseIPHeader_Inr[OF assms] by (auto split: if_splits)

lemma ParseHeaders_Inr:
  assumes "ParseHeaders m p = Inr p'"
  shows "\<exists>p2 nh. ParseIPHeader m p = Inr p2 \<and> ParseNextHeader m p2 = Inr nh
            \<and> p' = p2\<lparr>NextHeader := nh, parsed := True\<rparr>"
  using assms by (auto simp: ParseHeaders_def split: sum.splits)

lemma ParseHeaders_frame:
  assumes "ParseHeaders m p = Inr p'"
  shows "Packet.Raw p' = Packet.Raw p" "PacketLen p' = PacketLen p" "Buffer p' = Buffer p"
    "Addr p' = Addr p" "parsed p'"
proof -
  obtain p2 nh where a: "ParseIPHeader m p = Inr p2"
    and b: "p' = p2\<lparr>NextHeader := nh, parsed := True\<rparr>"
    using ParseHeaders_Inr[OF assms] by blast
  note f = ParseIPHeader_frame[OF a]
  show "Packet.Raw p' = Packet.Raw p" "PacketLen p' = PacketLen p" "Buffer p' = Buffer p"
    "Addr p' = Addr p" "parsed p'"
    using f b by simp_all
qed

lemma ex_parse: "ParseHeaders ex_mem ex_packet = Inr ex_parsed"
  by (simp add: ParseHeaders_def ParseIPHeader_def ParseNextHeader_def NewIPv4Header_def
      NewTCPHeader_def index_def slice_from_def slice_to_def reslice_def ex_mem_def
      ex_packet_def ex_parsed_def ex_ip_def ex_tcp_def ex_buffer_def ex_bytes_def ICMPv4_def
      TCP_proto_def UDP_def ICMPv6_def nth_append Let_def)

lemma ex_v5_parse: "ParseHeaders ex_v5_mem ex_packet = Inr ex_v5_parsed"
  by (simp add: ParseHeaders_def ParseIPHeader_def ParseNextHeader_def NewIPv6Header_def
      index_def slice_to_def reslice_def ex_v5_mem_def ex_packet_def ex_v5_parsed_def
      ex_buffer_def ex_bytes_def ICMPv4_def TCP_proto_def UDP_def ICMPv6_def
      nth_append Let_def)

lemma ParseHeaders_ip_step:
  assumes "ParseHeaders m p = Inr p'"
  shows "\<exists>b0. index m (Packet.Raw p) 0 = Some b0 \<and> ipVersion p' = unat (drop_bit 4 b0) \<and>
      (if unat (drop_bit 4 b0) = 4
       then hdrLen p' = unat (b0 AND 0xf) * 4
          \<and> index m (Packet.Raw p) 9 = Some (nextHeaderType p')
          \<and> (\<exists>v. IpHdr p' = Some (IPv4Header v))
       else hdrLen p' = 40
          \<and> index m (Packet.Raw p) 6 = Some (nextHeaderType p')
          \<and> (\<exists>v. IpHdr p' = Some (IPv6Header v)))"
proof -
  obtain p2 nh where a: "ParseIPHeader m p = Inr p2"
    and b: "p' = p2\<lparr>NextHeader := nh, parsed := True\<rparr>"
    using ParseHeaders_Inr[OF assms] by blast
  from ParseIPHeader_Inr[OF a] obtain b0 t v where
    c: "index m (Packet.Raw p) 0 = Some b0" and
    d: "if unat (drop_bit 4 b0) = 4
       then index m (Packet.Raw p) 9 = Some t \<and> NewIPv4Header m (Packet.Raw p) = Inr v
          \<and> p2 = p\<lparr>ipVersion := 4, hdrLen := unat (push_bit 2 (b0 AND 0xf)),
                    nextHeaderType := t, IpHdr := Some (IPv4Header v)\<rparr>
       else index m (Packet.Raw p) 6 = Some t \<and> NewIPv6Header m (Packet.Raw p) = Inr v
          \<and> p2 = p\<lparr>ipVersion := unat (drop_bit 4 b0), hdrLen := 40,
                    nextHeaderType := t, IpHdr := Some (IPv6Header v)\<rparr>"
    by blast
  show ?thesis
  proof (cases "unat (drop_bit 4 b0) = 4")
    case True
    with b c d show ?thesis by (simp add: ihl_times_4_simp)
  next
    case False
    with b c d show ?thesis by simp
  qed
qed

lemma ParseIPHeader_v6:
  assumes "index m (Packet.Raw q) 0 = Some b0" "unat (drop_bit 4 b0) \<noteq> 4"
    "index m (Packet.Raw q) 6 = Some nh" "40 \<le> cap (Packet.Raw q)"
  shows "ParseIPHeader m q
     = Inr (q\<lparr>ipVersion := unat (drop_bit 4 b0), hdrLen := 40, nextHeaderType := nh,
              IpHdr := Some (IPv6Header
                \<lparr>HeaderView.Raw = \<lparr>arr = arr (Packet.Raw q), off = off (Packet.Raw q),
                    len = 40, cap = cap (Packet.Raw q)\<rparr>,
                 HeaderView.Modified = False\<rparr>)\<rparr>)"
  using assms
  by (simp add: ParseIPHeader_def NewIPv6Header_def slice_to_def reslice_def Let_def)

lemma ParseIPHeader_v4:
  assumes "index m (Packet.Raw q) 0 = Some b0" "unat (drop_bit 4 b0) = 4"
    "index m (Packet.Raw q) 9 = Some nh" "unat (b0 AND 0xf) * 4 \<le> cap (Packet.Raw q)"
  shows "ParseIPHeader m q
     = Inr (q\<lparr>ipVersion := 4, hdrLen := unat (b0 AND 0xf) * 4, nextHeaderType := nh,
              IpHdr := Some (IPv4Header
                \<lparr>HeaderView.Raw = \<lparr>arr = arr (Packet.Raw q), off = off (Packet.Raw q),
                    len = unat (b0 AND 0xf) * 4, cap = cap (Packet.Raw q)\<rparr>,
                 HeaderView.Modified = False\<rparr>)\<rparr>)"
  using assms
  by (simp add: ParseIPHeader_def NewIPv4Header_def slice_to_def reslice_def Let_def
      ihl_times_4_simp)

text \<open>
  C10. The version cached by \<open>ParseHeaders\<close> is the high nibble of byte 0, and only the
  value 4 takes the IPv4 path: header length = low nibble of byte 0 times 4, protocol
  read from byte 9, an IPv4 view. Every other nibble, not only 6, takes the IPv6 path:
  header length 40, next header type read from byte 6, an IPv6 view. This holds of every
  result of \<open>ParseHeaders\<close>, and the IP step of \<open>ParseHeaders\<close> yields it whenever the bytes
  it reads are there.
\<close>

theorem ParseHeaders_version_dispatch:
  "(ParseHeaders m p = Inr p' \<longrightarrow>
      (\<exists>b. index m (Packet.Raw p) 0 = Some b \<and> ipVersion p' = unat (drop_bit 4 b) \<and>
        (if unat (drop_bit 4 b) = 4
         then hdrLen p' = unat (b AND 0xf) * 4
            \<and> index m (Packet.Raw p) 9 = Some (nextHeaderType p')
            \<and> (\<exists>v. IpHdr p' = Some (IPv4Header v))
         else hdrLen p' = 40
            \<and> index m (Packet.Raw p) 6 = Some (nextHeaderType p')
            \<and> (\<exists>v. IpHdr p' = Some (IPv6Header v)))))
   \<and> (index m (Packet.Raw q) 0 = Some b0 \<and> unat (drop_bit 4 b0) \<noteq> 4
        \<and> index m (Packet.Raw q) 6 = Some nh \<and> 40 \<le> cap (Packet.Raw q) \<longrightarrow>
      ParseIPHeader m q
        = Inr (q\<lparr>ipVersion := unat (drop_bit 4 b0), hdrLen := 40, nextHeaderType := nh,
                 IpHdr := Some (IPv6Header
                   \<lparr>HeaderView.Raw = \<lparr>arr = arr (Packet.Raw q), off = off (Packet.Raw q),
                       len = 40, cap = cap (Packet.Raw q)\<rparr>,
                    HeaderView.Modified = False\<rparr>)\<rparr>))
   \<and> (index m (Packet.Raw r) 0 = Some b4 \<and> unat (drop_bit 4 b4) = 4
        \<and> index m (Packet.Raw r) 9 = Some nh4
        \<and> unat (b4 AND 0xf) * 4 \<le> cap (Packet.Raw r) \<longrightarrow>
      ParseIPHeader m r
        = Inr (r\<lparr>ipVersion := 4, hdrLen := unat (b4 AND 0xf) * 4, nextHeaderType := nh4,
                 IpHdr := Some (IPv4Header
                   \<lparr>HeaderView.Raw = \<lparr>arr = arr (Packet.Raw r), off = off (Packet.Raw r),
                       len = unat (b4 AND 0xf) * 4, cap = cap (Packet.Raw r)\<rparr>,
                    HeaderView.Modified = False\<rparr>)\<rparr>))"
  using ParseHeaders_ip_step[of m p p'] ParseIPHeader_v6[of m q b0 nh]
    ParseIPHeader_v4[of m r b4 nh4]
  by blast

theorem ParseHeaders_version_dispatch_witness:
  "ParseHeaders ex_v5_mem ex_packet = Inr ex_v5_parsed
   \<and> index ex_v5_mem (Packet.Raw ex_packet) 0 = Some 0x55
   \<and> unat (drop_bit 4 (0x55 :: byte)) = 5
   \<and> index ex_v5_mem (Packet.Raw ex_packet) 6 = Some 0
   \<and> 40 \<le> cap (Packet.Raw ex_packet)
   \<and> ipVersion ex_v5_parsed = 5
   \<and> hdrLen ex_v5_parsed = 40
   \<and> nextHeaderType ex_v5_parsed = 0
   \<and> (\<exists>v. IpHdr ex_v5_parsed = Some (IPv6Header v))
   \<and> (\<exists>p2. ParseIPHeader ex_v5_mem ex_packet = Inr p2 \<and> hdrLen p2 = 40)
   \<and> index ex_mem (Packet.Raw ex_packet) 0 = Some 0x45
   \<and> unat (drop_bit 4 (0x45 :: byte)) = 4
   \<and> index ex_mem (Packet.Raw ex_packet) 9 = Some 6
   \<and> (\<exists>p2. ParseIPHeader ex_mem ex_packet = Inr p2 \<and> hdrLen p2 = 20)"
proof -
  have i: "index ex_v5_mem (Packet.Raw ex_packet) 0 = Some 0x55"
    "index ex_v5_mem (Packet.Raw ex_packet) 6 = Some 0"
    "40 \<le> cap (Packet.Raw ex_packet)"
    "index ex_mem (Packet.Raw ex_packet) 0 = Some 0x45"
    "index ex_mem (Packet.Raw ex_packet) 9 = Some 6"
    "unat ((0x45 :: byte) AND 0xf) * 4 \<le> cap (Packet.Raw ex_packet)"
    by (simp_all add: index_def ex_v5_mem_def ex_mem_def ex_packet_def ex_bytes_def nth_append)
  have n: "unat (drop_bit 4 (0x55 :: byte)) = 5" "unat (drop_bit 4 (0x45 :: byte)) = 4"
    "unat ((0x45 :: byte) AND 0xf) * 4 = 20"
    by simp_all
  have v: "ipVersion ex_v5_parsed = 5" "hdrLen ex_v5_parsed = 40"
    "nextHeaderType ex_v5_parsed = 0"
    "\<exists>v. IpHdr ex_v5_parsed = Some (IPv6Header v)"
    by (simp_all add: ex_v5_parsed_def)
  have a: "\<exists>p2. ParseIPHeader ex_v5_mem ex_packet = Inr p2 \<and> hdrLen p2 = 40"
    using ParseHeaders_version_dispatch[of ex_v5_mem ex_packet ex_v5_parsed ex_packet
        "0x55" 0 ex_packet "0x45" 6] ex_v5_parse i n
    by simp
  have b: "\<exists>p2. ParseIPHeader ex_mem ex_packet = Inr p2 \<and> hdrLen p2 = 20"
    using ParseHeaders_version_dispatch[of ex_mem ex_packet ex_parsed ex_packet
        "0x55" 0 ex_packet "0x45" 6] i n
    by simp
  show ?thesis using ex_v5_parse i(1,2,3,4,5) n(1,2) v a b by blast
qed

section \<open>The TCP view's dirty flag\<close>

lemma NewTCPHeader_fresh:
  assumes "NewTCPHeader m raw = Inr h"
  shows "TCPHeader.Raw h = raw" "\<not> TCPHeader.Modified h" "12 < len raw"
    "unat (drop_bit 4 (m ! arr raw ! (off raw + 12)) * 4) \<le> len raw"
    "slice_from raw (unat (drop_bit 4 (m ! arr raw ! (off raw + 12)) * 4)) = Some (Payload h)"
  using assms
  by (auto simp: NewTCPHeader_def index_def slice_from_def reslice_def Let_def
           split: option.splits if_splits)

lemma ex_new_tcp: "NewTCPHeader ex_mem (TCPHeader.Raw ex_tcp) = Inr ex_tcp"
  by (simp add: NewTCPHeader_def index_def slice_from_def reslice_def ex_mem_def ex_tcp_def
      ex_bytes_def nth_append Let_def)

text \<open>
  C8. A TCP view fresh from \<open>NewTCPHeader\<close> has \<open>Modified\<close> false. One call of any setter
  (\<open>SetSrcPort\<close>, \<open>SetDstPort\<close>, \<open>SetSeqNum\<close>, \<open>SetAckNum\<close>, \<open>SetPayload\<close>) returns and leaves
  \<open>Modified\<close> true, whatever value is written, the value already there included.
\<close>

theorem modified_false_then_true:
  assumes "NewTCPHeader m raw = Inr h" and "len raw \<le> cap raw"
  shows "\<not> TCPHeader.Modified h
     \<and> (\<exists>m' h'. TCP_SetSrcPort m2 h port = Inr (m', h') \<and> TCPHeader.Modified h')
     \<and> (\<exists>m' h'. TCP_SetDstPort m2 h port = Inr (m', h') \<and> TCPHeader.Modified h')
     \<and> (\<exists>m' h'. SetSeqNum m2 h num = Inr (m', h') \<and> TCPHeader.Modified h')
     \<and> (\<exists>m' h'. SetAckNum m2 h num = Inr (m', h') \<and> TCPHeader.Modified h')
     \<and> (\<exists>m' h'. SetPayload m h val = Inr (m', h') \<and> TCPHeader.Modified h')"
proof -
  note f = NewTCPHeader_fresh[OF assms(1)]
  have a: "\<exists>m' h'. TCP_SetSrcPort m2 h port = Inr (m', h') \<and> TCPHeader.Modified h'"
    using f(1,3) by (simp add: TCP_SetSrcPort_def store_def Let_def)
  have b: "\<exists>m' h'. TCP_SetDstPort m2 h port = Inr (m', h') \<and> TCPHeader.Modified h'"
    using f(1,3) by (simp add: TCP_SetDstPort_def store_def Let_def)
  have c: "\<exists>m' h'. SetSeqNum m2 h num = Inr (m', h') \<and> TCPHeader.Modified h'"
    using f(1,3) assms(2) by (simp add: SetSeqNum_def reslice_def PutUint32_def Let_def)
  have d: "\<exists>m' h'. SetAckNum m2 h num = Inr (m', h') \<and> TCPHeader.Modified h'"
    using f(1,3) assms(2) by (simp add: SetAckNum_def reslice_def PutUint32_def Let_def)
  have e: "\<exists>m' h'. SetPayload m h val = Inr (m', h') \<and> TCPHeader.Modified h'"
    using f assms(2)
    by (auto simp: SetPayload_def index_def slice_from_def slice_to_def reslice_def Let_def
        split: prod.splits)
  show ?thesis using f(2) a b c d e by blast
qed

theorem modified_false_then_true_witness:
  "NewTCPHeader ex_mem (TCPHeader.Raw ex_tcp) = Inr ex_tcp
     \<and> len (TCPHeader.Raw ex_tcp) \<le> cap (TCPHeader.Raw ex_tcp)
     \<and> \<not> TCPHeader.Modified ex_tcp
     \<and> (\<exists>m' h'. TCP_SetSrcPort ex_mem ex_tcp 1234 = Inr (m', h') \<and> TCPHeader.Modified h')
     \<and> (\<exists>m' h'. SetPayload ex_mem ex_tcp (Payload ex_tcp) = Inr (m', h')
            \<and> TCPHeader.Modified h')"
proof -
  have l: "len (TCPHeader.Raw ex_tcp) \<le> cap (TCPHeader.Raw ex_tcp)"
    by (simp add: ex_tcp_def)
  show ?thesis
    using modified_false_then_true[OF ex_new_tcp l, of ex_mem 1234 1 "Payload ex_tcp"]
      ex_new_tcp l
    by blast
qed

section \<open>The checksum helper\<close>

text \<open>
  C9. After \<open>HelperCalcChecksum\<close> the packet's \<open>PacketLen\<close> is what it was before the call,
  whatever length the external routine left there. The call panics only on a packet with
  no bytes (\<open>Raw[0]\<close>), and the length is untouched then as well.
\<close>

theorem HelperCalcChecksum_keeps_PacketLen:
  "PacketLen (snd (snd (HelperCalcChecksum m p r))) = PacketLen p
    \<and> (fst (HelperCalcChecksum m p r) = Some Panic) = (len (Packet.Raw p) = 0)"
  by (simp add: HelperCalcChecksum_def index_def Let_def)

section \<open>Port accessors\<close>

lemma ex_unknown_parse: "ParseHeaders ex_unknown_mem ex_packet = Inr ex_unknown_parsed"
  by (simp add: ParseHeaders_def ParseIPHeader_def ParseNextHeader_def NewIPv4Header_def
      index_def slice_from_def slice_to_def reslice_def ex_unknown_mem_def
      ex_packet_def ex_unknown_parsed_def ex_ip_def ex_buffer_def ex_bytes_def ICMPv4_def
      TCP_proto_def UDP_def ICMPv6_def nth_append Let_def)

lemma ParseNextHeader_None:
  assumes "ParseNextHeader m p = Inr nh"
  shows "(nh = None) = (nextHeaderType p \<notin> {ICMPv4, TCP_proto, UDP, ICMPv6})"
  using assms
  by (auto simp: ParseNextHeader_def Let_def split: if_splits option.splits sum.splits)

lemma ParseNextHeader_unknown:
  assumes "nextHeaderType p \<notin> {ICMPv4, TCP_proto, UDP, ICMPv6}"
  shows "ParseNextHeader m p = Inr None"
  using assms by (simp add: ParseNextHeader_def Let_def)

lemma lift_getter_not_unsupported:
  "lift_getter f other m h \<noteq> Inl (ProtocolNotSupported t) \<or> (\<exists>th. h = TCP th \<and> f m th = Inl (ProtocolNotSupported t))"
  by (auto simp: lift_getter_def split: ProtocolHeader.splits sum.splits)

lemma TCP_SrcPort_err: "TCP_SrcPort m h \<noteq> Inl (ProtocolNotSupported t)"
  by (simp add: TCP_SrcPort_def split: option.splits)

lemma TCP_DstPort_err: "TCP_DstPort m h \<noteq> Inl (ProtocolNotSupported t)"
  by (simp add: TCP_DstPort_def split: option.splits)

lemma TCP_SetSrcPort_err: "TCP_SetSrcPort m h port \<noteq> Inl (ProtocolNotSupported t)"
  by (simp add: TCP_SetSrcPort_def Let_def split: option.splits)

lemma TCP_SetDstPort_err: "TCP_SetDstPort m h port \<noteq> Inl (ProtocolNotSupported t)"
  by (simp add: TCP_SetDstPort_def Let_def split: option.splits)

lemma lift_setter_not_unsupported:
  assumes "\<And>th. f m th port \<noteq> Inl (ProtocolNotSupported t)"
  shows "lift_setter f other m h port \<noteq> (Some (ProtocolNotSupported t), a, b)"
  using assms[of "case h of TCP th \<Rightarrow> th"]
  by (auto simp: lift_setter_def split: ProtocolHeader.splits sum.splits prod.splits option.splits)

lemma Packet_SrcPort_parsed:
  assumes "parsed p"
  shows "(\<exists>t. fst (Packet_SrcPort g m p) = Inl (ProtocolNotSupported t)) = (NextHeader p = None)"
    "NextHeader p = None \<Longrightarrow> fst (Packet_SrcPort g m p) = Inl (ProtocolNotSupported (nextHeaderType p))"
    "snd (Packet_SrcPort g m p) = p"
  using assms lift_getter_not_unsupported[of TCP_SrcPort g m] TCP_SrcPort_err
  by (auto simp: Packet_SrcPort_def VerifyParsed_def split: option.splits)

lemma Packet_DstPort_parsed:
  assumes "parsed p"
  shows "(\<exists>t. fst (Packet_DstPort g m p) = Inl (ProtocolNotSupported t)) = (NextHeader p = None)"
    "NextHeader p = None \<Longrightarrow> fst (Packet_DstPort g m p) = Inl (ProtocolNotSupported (nextHeaderType p))"
    "snd (Packet_DstPort g m p) = p"
  using assms lift_getter_not_unsupported[of TCP_DstPort g m] TCP_DstPort_err
  by (auto simp: Packet_DstPort_def VerifyParsed_def split: option.splits)

lemma Packet_SetSrcPort_parsed:
  assumes "parsed p"
  shows "(\<exists>t. fst (Packet_SetSrcPort st m p port) = Some (ProtocolNotSupported t)) = (NextHeader p = None)"
    "NextHeader p = None \<Longrightarrow> Packet_SetSrcPort st m p port = (Some (ProtocolNotSupported (nextHeaderType p)), m, p)"
  using assms lift_setter_not_unsupported[of TCP_SetSrcPort m port _ st, OF TCP_SetSrcPort_err]
  by (auto simp: Packet_SetSrcPort_def VerifyParsed_def split: option.splits prod.splits)

lemma Packet_SetDstPort_parsed:
  assumes "parsed p"
  shows "(\<exists>t. fst (Packet_SetDstPort st m p port) = Some (ProtocolNotSupported t)) = (NextHeader p = None)"
    "NextHeader p = None \<Longrightarrow> Packet_SetDstPort st m p port = (Some (ProtocolNotSupported (nextHeaderType p)), m, p)"
  using assms lift_setter_not_unsupported[of TCP_SetDstPort m port _ st, OF TCP_SetDstPort_err]
  by (auto simp: Packet_SetDstPort_def VerifyParsed_def split: option.splits prod.splits)

text \<open>
  C5. On a parsed packet each port accessor (\<open>SrcPort\<close>, \<open>DstPort\<close>, \<open>SetSrcPort\<close>, \<open>SetDstPort\<close>)
  fails with \<open>ProtocolNotSupported\<close> exactly when there is no transport view, and there
  is none exactly when the next header type is not one of ICMPv4, TCP, UDP, ICMPv6.
  An unrecognised type is no parse error: once the IP step has passed, \<open>ParseHeaders\<close>
  returns with \<open>NextHeader\<close> absent.
\<close>

theorem port_accessors_unsupported_iff:
  "(ParseHeaders m p0 = Inr p \<longrightarrow>
       (NextHeader p = None) = (nextHeaderType p \<notin> {ICMPv4, TCP_proto, UDP, ICMPv6})
     \<and> (\<exists>t. fst (Packet_SrcPort g m' p) = Inl (ProtocolNotSupported t)) = (NextHeader p = None)
     \<and> (\<exists>t. fst (Packet_DstPort g m' p) = Inl (ProtocolNotSupported t)) = (NextHeader p = None)
     \<and> (\<exists>t. fst (Packet_SetSrcPort st m' p port) = Some (ProtocolNotSupported t))
          = (NextHeader p = None)
     \<and> (\<exists>t. fst (Packet_SetDstPort st m' p port) = Some (ProtocolNotSupported t))
          = (NextHeader p = None))
   \<and> (ParseIPHeader m p0 = Inr p2 \<and> nextHeaderType p2 \<notin> {ICMPv4, TCP_proto, UDP, ICMPv6} \<longrightarrow>
        ParseHeaders m p0 = Inr (p2\<lparr>NextHeader := None, parsed := True\<rparr>))"
proof (intro conjI impI)
  assume a: "ParseHeaders m p0 = Inr p"
  then obtain q nh where q: "ParseIPHeader m p0 = Inr q" "ParseNextHeader m q = Inr nh"
    "p = q\<lparr>NextHeader := nh, parsed := True\<rparr>"
    using ParseHeaders_Inr by blast
  show "(NextHeader p = None) = (nextHeaderType p \<notin> {ICMPv4, TCP_proto, UDP, ICMPv6})"
    using ParseNextHeader_None[OF q(2)] q(3) by simp
  have pp: "parsed p" using q(3) by simp
  show "(\<exists>t. fst (Packet_SrcPort g m' p) = Inl (ProtocolNotSupported t)) = (NextHeader p = None)"
    by (rule Packet_SrcPort_parsed(1)[OF pp])
  show "(\<exists>t. fst (Packet_DstPort g m' p) = Inl (ProtocolNotSupported t)) = (NextHeader p = None)"
    by (rule Packet_DstPort_parsed(1)[OF pp])
  show "(\<exists>t. fst (Packet_SetSrcPort st m' p port) = Some (ProtocolNotSupported t))
          = (NextHeader p = None)"
    by (rule Packet_SetSrcPort_parsed(1)[OF pp])
  show "(\<exists>t. fst (Packet_SetDstPort st m' p port) = Some (ProtocolNotSupported t))
          = (NextHeader p = None)"
    by (rule Packet_SetDstPort_parsed(1)[OF pp])
next
  assume "ParseIPHeader m p0 = Inr p2 \<and> nextHeaderType p2 \<notin> {ICMPv4, TCP_proto, UDP, ICMPv6}"
  then show "ParseHeaders m p0 = Inr (p2\<lparr>NextHeader := None, parsed := True\<rparr>)"
    by (simp add: ParseHeaders_def ParseNextHeader_unknown)
qed

lemma ex_unknown_ip:
  "ParseIPHeader ex_unknown_mem ex_packet
     = Inr (ex_packet\<lparr>IpHdr := Some (IPv4Header ex_ip), ipVersion := 4, hdrLen := 20,
              nextHeaderType := 200\<rparr>)"
  by (simp add: ParseIPHeader_def NewIPv4Header_def
      index_def slice_to_def reslice_def ex_unknown_mem_def
      ex_packet_def ex_ip_def ex_buffer_def ex_bytes_def nth_append Let_def)

theorem port_accessors_unsupported_iff_witness:
  "ParseHeaders ex_unknown_mem ex_packet = Inr ex_unknown_parsed
   \<and> NextHeader ex_unknown_parsed = None
   \<and> nextHeaderType ex_unknown_parsed = 200
   \<and> (\<exists>t. fst (Packet_SrcPort (\<lambda>m h. Inr 0) ex_unknown_mem ex_unknown_parsed)
            = Inl (ProtocolNotSupported t))
   \<and> (\<exists>t. fst (Packet_SetDstPort (\<lambda>m h port. (None, m, h)) ex_unknown_mem ex_unknown_parsed 80)
            = Some (ProtocolNotSupported t))"
proof -
  have u: "nextHeaderType (ex_packet\<lparr>IpHdr := Some (IPv4Header ex_ip), ipVersion := 4,
              hdrLen := 20, nextHeaderType := 200\<rparr>) \<notin> {ICMPv4, TCP_proto, UDP, ICMPv6}"
    by (simp add: ICMPv4_def TCP_proto_def UDP_def ICMPv6_def)
  have n: "NextHeader ex_unknown_parsed = None" "nextHeaderType ex_unknown_parsed = 200"
    by (simp_all add: ex_unknown_parsed_def)
  show ?thesis
    using port_accessors_unsupported_iff[of ex_unknown_mem ex_packet ex_unknown_parsed "\<lambda>m h. Inr 0" ex_unknown_mem
        "\<lambda>m h port. (None, m, h)" 80
        "ex_packet\<lparr>IpHdr := Some (IPv4Header ex_ip), ipVersion := 4, hdrLen := 20,
              nextHeaderType := 200\<rparr>"]
      ex_unknown_parse ex_unknown_ip u n
    by simp
qed

section \<open>Parsing again\<close>

lemma ParseIPHeader_again:
  assumes "ParseIPHeader m p = Inr p2" and "Packet.Raw q = Packet.Raw p"
  shows "ParseIPHeader m q = Inr (q\<lparr>ipVersion := ipVersion p2, hdrLen := hdrLen p2,
            nextHeaderType := nextHeaderType p2, IpHdr := IpHdr p2\<rparr>)"
proof -
  from ParseIPHeader_Inr[OF assms(1)] obtain b0 t v where
    c: "index m (Packet.Raw p) 0 = Some b0" and
    d: "if unat (drop_bit 4 b0) = 4
       then index m (Packet.Raw p) 9 = Some t \<and> NewIPv4Header m (Packet.Raw p) = Inr v
          \<and> p2 = p\<lparr>ipVersion := 4, hdrLen := unat (push_bit 2 (b0 AND 0xf)),
                    nextHeaderType := t, IpHdr := Some (IPv4Header v)\<rparr>
       else index m (Packet.Raw p) 6 = Some t \<and> NewIPv6Header m (Packet.Raw p) = Inr v
          \<and> p2 = p\<lparr>ipVersion := unat (drop_bit 4 b0), hdrLen := 40,
                    nextHeaderType := t, IpHdr := Some (IPv6Header v)\<rparr>"
    by blast
  show ?thesis
  proof (cases "unat (drop_bit 4 b0) = 4")
    case True
    with c d assms(2) show ?thesis by (simp add: ParseIPHeader_def Let_def)
  next
    case False
    with c d assms(2) show ?thesis by (simp add: ParseIPHeader_def Let_def)
  qed
qed

lemma ParseNextHeader_cong:
  assumes "Packet.Raw q = Packet.Raw p" "hdrLen q = hdrLen p" "nextHeaderType q = nextHeaderType p"
  shows "ParseNextHeader m q = ParseNextHeader m p"
  unfolding ParseNextHeader_def assms by (rule refl)

lemma ParseHeaders_idem:
  assumes "ParseHeaders m p = Inr p'"
  shows "ParseHeaders m p' = Inr p'"
proof -
  obtain p2 nh where a: "ParseIPHeader m p = Inr p2" and n: "ParseNextHeader m p2 = Inr nh"
    and b: "p' = p2\<lparr>NextHeader := nh, parsed := True\<rparr>"
    using ParseHeaders_Inr[OF assms] by blast
  have r: "Packet.Raw p' = Packet.Raw p" using ParseHeaders_frame(1)[OF assms] .
  let ?q = "p'\<lparr>ipVersion := ipVersion p2, hdrLen := hdrLen p2,
            nextHeaderType := nextHeaderType p2, IpHdr := IpHdr p2\<rparr>"
  have q: "?q = p'" using b by simp
  have 1: "ParseIPHeader m p' = Inr p'"
    using ParseIPHeader_again[OF a r] q by simp
  have 2: "ParseNextHeader m p' = Inr nh"
    using n ParseNextHeader_cong[of p' p2 m] b by simp
  show ?thesis using 1 2 b by (simp add: ParseHeaders_def)
qed

lemma New_IP_unmodified:
  "NewIPv4Header m raw = Inr v \<Longrightarrow> \<not> HeaderView.Modified v"
  "NewIPv6Header m raw = Inr v \<Longrightarrow> \<not> HeaderView.Modified v"
  by (auto simp: NewIPv4Header_def NewIPv6Header_def split: option.splits)

lemma ParseIPHeader_fresh_view:
  assumes "ParseIPHeader m p = Inr p2"
  shows "\<exists>ih. IpHdr p2 = Some ih \<and> \<not> IP_NeedNewChecksum ih"
  using ParseIPHeader_Inr[OF assms]
  by (auto simp: IP_NeedNewChecksum_def dest: New_IP_unmodified split: if_splits)

lemma ParseNextHeader_fresh_view:
  assumes "ParseNextHeader m p2 = Inr (Some nh)"
  shows "\<not> NeedNewChecksum nh"
  using assms
  by (auto simp: ParseNextHeader_def NeedNewChecksum_def NewFixedHeader_def Let_def
      TCP_NeedNewChecksum_def
      dest: NewTCPHeader_fresh(2) split: if_splits option.splits sum.splits)

lemma ParseHeaders_fresh_views:
  assumes "ParseHeaders m p = Inr p'"
  shows "\<exists>ih. IpHdr p' = Some ih \<and> \<not> IP_NeedNewChecksum ih"
    and "NextHeader p' = Some nh \<Longrightarrow> \<not> NeedNewChecksum nh"
proof -
  obtain p2 n where a: "ParseIPHeader m p = Inr p2" and n: "ParseNextHeader m p2 = Inr n"
    and b: "p' = p2\<lparr>NextHeader := n, parsed := True\<rparr>"
    using ParseHeaders_Inr[OF assms] by blast
  show "\<exists>ih. IpHdr p' = Some ih \<and> \<not> IP_NeedNewChecksum ih"
    using ParseIPHeader_fresh_view[OF a] b by simp
  show "NextHeader p' = Some nh \<Longrightarrow> \<not> NeedNewChecksum nh"
    using ParseNextHeader_fresh_view[of m p2 nh] n b by simp
qed

text \<open>
  C7, as the code has it. \<open>VerifyParsed\<close>, which every accessor runs first, is a no-op on
  a parsed packet and parses an unparsed one: parsing is lazy and cached. \<open>ParseHeaders\<close>
  itself does not look at \<open>parsed\<close>: it parses again, building both views anew with
  \<open>Modified\<close> false. Called a second time right after a parse it returns the same packet.
\<close>

theorem VerifyParsed_noop_ParseHeaders_reparses:
  "(parsed p \<longrightarrow>
       VerifyParsed m p = Inr p
     \<and> snd (Packet_NextHeaderType m p) = p
     \<and> snd (Packet_SrcPort g m p) = p
     \<and> snd (Packet_DstPort g m p) = p)
   \<and> (\<not> parsed q \<longrightarrow> VerifyParsed m q = ParseHeaders m q)
   \<and> (ParseHeaders m r = Inr r' \<longrightarrow>
         parsed r'
       \<and> ParseHeaders m r' = Inr r'
       \<and> (\<exists>ih. IpHdr r' = Some ih \<and> \<not> IP_NeedNewChecksum ih)
       \<and> (\<forall>nh. NextHeader r' = Some nh \<longrightarrow> \<not> NeedNewChecksum nh))"
proof (intro conjI impI allI)
  assume p: "parsed p"
  show "VerifyParsed m p = Inr p" using p by (simp add: VerifyParsed_def)
  show "snd (Packet_NextHeaderType m p) = p"
    using p by (simp add: Packet_NextHeaderType_def VerifyParsed_def)
  show "snd (Packet_SrcPort g m p) = p" by (rule Packet_SrcPort_parsed(3)[OF p])
  show "snd (Packet_DstPort g m p) = p" by (rule Packet_DstPort_parsed(3)[OF p])
next
  assume "\<not> parsed q"
  then show "VerifyParsed m q = ParseHeaders m q" by (simp add: VerifyParsed_def)
next
  assume a: "ParseHeaders m r = Inr r'"
  show "parsed r'" by (rule ParseHeaders_frame(5)[OF a])
  show "ParseHeaders m r' = Inr r'" by (rule ParseHeaders_idem[OF a])
  show "\<exists>ih. IpHdr r' = Some ih \<and> \<not> IP_NeedNewChecksum ih"
    by (rule ParseHeaders_fresh_views(1)[OF a])
next
  fix nh
  assume a: "ParseHeaders m r = Inr r'" and b: "NextHeader r' = Some nh"
  show "\<not> NeedNewChecksum nh" by (rule ParseHeaders_fresh_views(2)[OF a b])
qed

lemma ex_set_src_port:
  "TCP_SetSrcPort ex_mem ex_tcp 1234 = Inr (ex_mem, ex_tcp\<lparr>TCPHeader.Modified := True\<rparr>)"
  by (simp add: TCP_SetSrcPort_def store_def ex_mem_def ex_tcp_def ex_bytes_def Let_def
      list_update_append)

lemma ex_reparse: "ParseHeaders ex_mem ex_modified = Inr ex_parsed"
  by (simp add: ParseHeaders_def ParseIPHeader_def ParseNextHeader_def NewIPv4Header_def
      NewTCPHeader_def index_def slice_from_def slice_to_def reslice_def ex_mem_def
      ex_packet_def ex_parsed_def ex_modified_def ex_ip_def ex_tcp_def ex_buffer_def
      ex_bytes_def ICMPv4_def TCP_proto_def UDP_def ICMPv6_def nth_append Let_def)

text \<open>
  A parsed packet whose TCP view was marked by \<open>SetSrcPort\<close>: a second \<open>ParseHeaders\<close>
  gives the packet with a fresh view, \<open>Modified\<close> false again.
\<close>

theorem ParseHeaders_second_call_counterexample:
  "parsed ex_modified
   \<and> TCP_SetSrcPort ex_mem ex_tcp 1234 = Inr (ex_mem, ex_tcp\<lparr>TCPHeader.Modified := True\<rparr>)
   \<and> NextHeader ex_modified = Some (TCP (ex_tcp\<lparr>TCPHeader.Modified := True\<rparr>))
   \<and> ParseHeaders ex_mem ex_modified = Inr ex_parsed
   \<and> NextHeader ex_parsed = Some (TCP ex_tcp)
   \<and> \<not> TCPHeader.Modified ex_tcp
   \<and> ex_parsed \<noteq> ex_modified"
proof -
  have "NextHeader ex_parsed \<noteq> NextHeader ex_modified"
    by (simp add: ex_parsed_def ex_modified_def ex_tcp_def)
  then have "ex_parsed \<noteq> ex_modified" by auto
  then show ?thesis
    using ex_set_src_port ex_reparse
    by (simp add: ex_modified_def ex_parsed_def ex_tcp_def)
qed

theorem VerifyParsed_noop_ParseHeaders_reparses_witness:
  "parsed ex_modified \<and> \<not> parsed ex_packet \<and> ParseHeaders ex_mem ex_packet = Inr ex_parsed
   \<and> VerifyParsed ex_mem ex_modified = Inr ex_modified
   \<and> VerifyParsed ex_mem ex_packet = ParseHeaders ex_mem ex_packet
   \<and> ParseHeaders ex_mem ex_parsed = Inr ex_parsed"
proof -
  have a: "parsed ex_modified" by (simp add: ex_modified_def ex_parsed_def)
  have b: "\<not> parsed ex_packet" by (simp add: ex_packet_def)
  show ?thesis
    using VerifyParsed_noop_ParseHeaders_reparses[of ex_modified ex_mem "\<lambda>m h. Inr 0" ex_packet ex_packet ex_parsed] a b ex_parse
    by simp
qed

section \<open>Releasing and acquiring buffers\<close>

lemma length_blit [simp]: "length (blit xs pos bs) = length xs"
  by (auto simp: blit_def)

lemma length_put_bytes [simp]: "length (put_bytes m s bs) = length m"
  by (simp add: put_bytes_def)

lemma blit_zero_step:
  "(blit xs pos (replicate i 0))[pos + i := 0] = blit xs pos (replicate (Suc i) (0::byte))"
  by (rule nth_equalityI)
    (auto simp: blit_def nth_append nth_list_update min_def simp del: replicate_Suc)

lemma store_zero_step:
  assumes "i < len s"
  shows "store (put_bytes m s (replicate i 0)) s i 0 = Some (put_bytes m s (replicate (Suc i) 0))"
proof (cases "arr s < length m")
  case True
  then show ?thesis using assms
    by (simp add: store_def put_bytes_def blit_zero_step del: replicate_Suc)
next
  case False
  then show ?thesis using assms by (simp add: store_def put_bytes_def list_update_beyond)
qed

lemma zero_loop_from:
  assumes "i \<le> k" "k \<le> len s"
  shows "zero_loop (put_bytes m s (replicate i 0)) s (int i) (int k)
           = Inr (put_bytes m s (replicate k 0))"
  using assms
proof (induction "k - i" arbitrary: i)
  case 0
  then have "i = k" by simp
  then show ?case by (subst zero_loop.simps) simp
next
  case (Suc d)
  then have lt: "i < k" and il: "i < len s" by auto
  have d: "d = k - Suc i" using Suc by simp
  have ih: "zero_loop (put_bytes m s (replicate (Suc i) 0)) s (int (Suc i)) (int k)
           = Inr (put_bytes m s (replicate k 0))"
    using Suc.hyps(1)[OF d] lt Suc.prems by simp
  have s: "int i + 1 = int (Suc i)" by simp
  show ?case
    by (subst zero_loop.simps) (simp add: lt store_zero_step[OF il] s ih del: of_nat_Suc replicate_Suc)
qed

lemma put_bytes_nil: "put_bytes m s [] = m"
  by (cases "arr s < length m") (simp_all add: put_bytes_def blit_def)

lemma zero_loop_ok:
  assumes "0 \<le> k" "nat k \<le> len s"
  shows "zero_loop m s 0 k = Inr (put_bytes m s (replicate (nat k) 0))"
  using zero_loop_from[of 0 "nat k" s m] assms by (simp add: put_bytes_nil)

lemma zero_loop_neg:
  assumes "k \<le> 0"
  shows "zero_loop m s 0 k = Inr m"
  using assms by (subst zero_loop.simps) simp

lemma ReturnBuffer_pooled:
  assumes "len b = PacketBufferSize" "0 \<le> k" "nat k \<le> PacketBufferSize"
  shows "ReturnBuffer w b k
           = Inr (w\<lparr>heap := put_bytes (heap w) b (replicate (nat k) 0), pool := b # pool w\<rparr>)"
  using assms by (simp add: ReturnBuffer_def zero_loop_ok)

lemma ReturnBuffer_dropped:
  assumes "len b \<noteq> PacketBufferSize"
  shows "ReturnBuffer w b k = Inr w"
  using assms by (simp add: ReturnBuffer_def)

lemma index_put_zero:
  assumes "i < k" "k \<le> len s" "arr s < length m" "off s + len s \<le> length (m ! arr s)"
  shows "index (put_bytes m s (replicate k 0)) s i = Some 0"
  using assms by (simp add: index_def put_bytes_def blit_def nth_append)

lemma GetBuffer_head:
  assumes "pool w = b # bs"
  shows "GetBuffer 0 w = (b, w\<lparr>pool := bs\<rparr>)"
  using assms by (simp add: GetBuffer_def)

lemma GetBuffer_pooled:
  assumes "sel < length (pool w)"
  shows "fst (GetBuffer sel w) = pool w ! sel" "heap (snd (GetBuffer sel w)) = heap w"
  using assms by (simp_all add: GetBuffer_def)

lemma GetBuffer_new:
  assumes "length (pool w) \<le> sel"
  shows "len (fst (GetBuffer sel w)) = PacketBufferSize"
    "i < PacketBufferSize \<Longrightarrow> index (heap (snd (GetBuffer sel w))) (fst (GetBuffer sel w)) i = Some 0"
    "pool (snd (GetBuffer sel w)) = pool w"
  using assms by (simp_all add: GetBuffer_def index_def)

lemma GetBuffer_len:
  assumes "\<forall>s\<in>set (pool w). len s = PacketBufferSize"
  shows "len (fst (GetBuffer sel w)) = PacketBufferSize"
proof (cases "sel < length (pool w)")
  case True
  then show ?thesis using assms GetBuffer_pooled(1)[OF True] by simp
next
  case False
  then show ?thesis using GetBuffer_new(1)[of w sel] by simp
qed

text \<open>
  C3, as the code has it. Releasing a buffer of length \<open>PacketBufferSize\<close> with
  \<open>usedLength = k\<close>, \<open>0 \<le> k \<le> PacketBufferSize\<close>, zeroes its first \<open>k\<close> bytes and pools it,
  whatever its bytes were; a buffer of another length is dropped, with no error. The
  next acquire yields the released buffer (first \<open>k\<close> bytes zero), or a buffer that was
  pooled before, or a new all-zero buffer; its length is \<open>PacketBufferSize\<close> when that of
  every pooled buffer is.
\<close>

theorem release_then_acquire:
  "(len b = PacketBufferSize \<and> 0 \<le> k \<and> k \<le> int PacketBufferSize
      \<and> arr b < length (heap w) \<and> off b + len b \<le> length (heap w ! arr b) \<longrightarrow>
      (\<exists>w1. ReturnBuffer w b k = Inr w1
         \<and> pool w1 = b # pool w
         \<and> (\<forall>i<nat k. index (heap w1) b i = Some 0)
         \<and> (sel = 0 \<longrightarrow> fst (GetBuffer sel w1) = b \<and> heap (snd (GetBuffer sel w1)) = heap w1)
         \<and> (0 < sel \<and> sel \<le> length (pool w) \<longrightarrow>
               fst (GetBuffer sel w1) = pool w ! (sel - 1)
             \<and> heap (snd (GetBuffer sel w1)) = heap w1)
         \<and> (length (pool w) < sel \<longrightarrow>
               (\<forall>i<PacketBufferSize.
                  index (heap (snd (GetBuffer sel w1))) (fst (GetBuffer sel w1)) i = Some 0))
         \<and> ((\<forall>s\<in>set (pool w). len s = PacketBufferSize) \<longrightarrow>
               len (fst (GetBuffer sel w1)) = PacketBufferSize)))
   \<and> (len b' \<noteq> PacketBufferSize \<longrightarrow> ReturnBuffer w b' k = Inr w)"
proof (intro conjI impI)
  assume a: "len b = PacketBufferSize \<and> 0 \<le> k \<and> k \<le> int PacketBufferSize
      \<and> arr b < length (heap w) \<and> off b + len b \<le> length (heap w ! arr b)"
  let ?w1 = "w\<lparr>heap := put_bytes (heap w) b (replicate (nat k) 0), pool := b # pool w\<rparr>"
  have k: "nat k \<le> PacketBufferSize" using a by linarith
  have r: "ReturnBuffer w b k = Inr ?w1" using a k by (simp add: ReturnBuffer_pooled)
  have z: "\<forall>i<nat k. index (heap ?w1) b i = Some 0"
    using a k by (simp add: index_put_zero)
  have s0: "sel = 0 \<longrightarrow> fst (GetBuffer sel ?w1) = b \<and> heap (snd (GetBuffer sel ?w1)) = heap ?w1"
    by (simp add: GetBuffer_def)
  have s1: "0 < sel \<and> sel \<le> length (pool w) \<longrightarrow>
               fst (GetBuffer sel ?w1) = pool w ! (sel - 1)
             \<and> heap (snd (GetBuffer sel ?w1)) = heap ?w1"
    by (auto simp: GetBuffer_def nth_Cons')
  have s2: "length (pool w) < sel \<longrightarrow>
               (\<forall>i<PacketBufferSize.
                  index (heap (snd (GetBuffer sel ?w1))) (fst (GetBuffer sel ?w1)) i = Some 0)"
    using GetBuffer_new(2)[of ?w1 sel] by simp
  have s3: "(\<forall>s\<in>set (pool w). len s = PacketBufferSize) \<longrightarrow>
               len (fst (GetBuffer sel ?w1)) = PacketBufferSize"
    using GetBuffer_len[of ?w1 sel] a by simp
  show "\<exists>w1. ReturnBuffer w b k = Inr w1
         \<and> pool w1 = b # pool w
         \<and> (\<forall>i<nat k. index (heap w1) b i = Some 0)
         \<and> (sel = 0 \<longrightarrow> fst (GetBuffer sel w1) = b \<and> heap (snd (GetBuffer sel w1)) = heap w1)
         \<and> (0 < sel \<and> sel \<le> length (pool w) \<longrightarrow>
               fst (GetBuffer sel w1) = pool w ! (sel - 1)
             \<and> heap (snd (GetBuffer sel w1)) = heap w1)
         \<and> (length (pool w) < sel \<longrightarrow>
               (\<forall>i<PacketBufferSize.
                  index (heap (snd (GetBuffer sel w1))) (fst (GetBuffer sel w1)) i = Some 0))
         \<and> ((\<forall>s\<in>set (pool w). len s = PacketBufferSize) \<longrightarrow>
               len (fst (GetBuffer sel w1)) = PacketBufferSize)"
    using r z s0 s1 s2 s3 by (intro exI[of _ ?w1]) simp
next
  assume "len b' \<noteq> PacketBufferSize"
  then show "ReturnBuffer w b' k = Inr w" by (rule ReturnBuffer_dropped)
qed

lemma cx_step1: "ReturnBuffer cx_pool_pre cx_pool_A 1 = Inr cx_pool_mid"
  using ReturnBuffer_pooled[of cx_pool_A 1 cx_pool_pre]
  by (simp add: cx_pool_A_def cx_pool_pre_def cx_pool_mid_def PacketBufferSize_def
      put_bytes_def blit_def)

lemma cx_step2: "ReturnBuffer cx_pool_mid cx_pool_B 2 = Inr cx_pool_post"
  using ReturnBuffer_pooled[of cx_pool_B 2 cx_pool_mid]
  by (simp add: cx_pool_A_def cx_pool_B_def cx_pool_mid_def cx_pool_post_def
      PacketBufferSize_def put_bytes_def blit_def numeral_2_eq_2)

text \<open>
  The pool hands out the buffer released first: its second byte was never zeroed,
  although the buffer released last had used length 2.
\<close>

theorem acquire_other_buffer_counterexample:
  "ReturnBuffer cx_pool_pre cx_pool_A 1 = Inr cx_pool_mid
   \<and> ReturnBuffer cx_pool_mid cx_pool_B 2 = Inr cx_pool_post
   \<and> fst (GetBuffer 1 cx_pool_post) = cx_pool_A
   \<and> len (fst (GetBuffer 1 cx_pool_post)) = PacketBufferSize
   \<and> index (heap (snd (GetBuffer 1 cx_pool_post))) (fst (GetBuffer 1 cx_pool_post)) 1
        = Some 0xFF"
  using cx_step1 cx_step2
  by (simp add: GetBuffer_def cx_pool_post_def cx_pool_A_def index_def PacketBufferSize_def)

theorem release_then_acquire_witness:
  "len ex_buffer = PacketBufferSize \<and> (0::int) \<le> 44 \<and> (44::int) \<le> int PacketBufferSize
   \<and> arr ex_buffer < length (heap ex_world)
   \<and> off ex_buffer + len ex_buffer \<le> length (heap ex_world ! arr ex_buffer)
   \<and> len nil_slice \<noteq> PacketBufferSize
   \<and> (\<exists>w1. ReturnBuffer ex_world ex_buffer 44 = Inr w1
         \<and> pool w1 = [ex_buffer]
         \<and> (\<forall>i<44. index (heap w1) ex_buffer i = Some 0)
         \<and> fst (GetBuffer 0 w1) = ex_buffer)
   \<and> ReturnBuffer ex_world nil_slice 44 = Inr ex_world"
proof -
  have h: "len ex_buffer = PacketBufferSize" "(0::int) \<le> 44" "(44::int) \<le> int PacketBufferSize"
    "arr ex_buffer < length (heap ex_world)"
    "off ex_buffer + len ex_buffer \<le> length (heap ex_world ! arr ex_buffer)"
    "len nil_slice \<noteq> PacketBufferSize" "pool ex_world = []"
    by (simp_all add: ex_buffer_def ex_world_def ex_mem_def ex_bytes_def PacketBufferSize_def
        nil_slice_def)
  show ?thesis
    using release_then_acquire[of ex_buffer 44 ex_world 0 nil_slice] h by auto
qed

section \<open>Sending\<close>

lemma Send_closed:
  assumes "\<not> open wd"
  shows "Send w wd p r = (Inl HandleClosed, w)"
  using assms by (simp add: Send_def)

lemma Send_pooled:
  assumes "open wd" "0 < len (Packet.Raw p)" "len (getBuffer p) = PacketBufferSize"
    "PacketLen p \<le> PacketBufferSize"
  shows "Send w wd p r
     = (if send_success r = 0 then Inl (DriverError (send_err r)) else Inr (send_len r),
        w\<lparr>heap := put_bytes (heap w) (getBuffer p) (replicate (PacketLen p) 0),
          pool := getBuffer p # pool w\<rparr>)"
  using assms by (simp add: Send_def index_def ReturnBuffer_pooled)



text \<open>
  C4, as the code has it. On an open session \<open>Send\<close> releases the packet's buffer to the
  pool, its first \<open>PacketLen\<close> bytes zeroed, whether the injection succeeds or fails (for a
  packet with at least one byte and a pooled buffer of \<open>PacketBufferSize\<close> bytes). On a
  closed session \<open>Send\<close> returns the error before anything else: nothing is injected and
  the pool is as it was.
\<close>

theorem Send_releases_buffer_when_open:
  "(open wd \<and> 0 < len (Packet.Raw p) \<and> len (getBuffer p) = PacketBufferSize
      \<and> PacketLen p \<le> PacketBufferSize \<longrightarrow>
      pool (snd (Send w wd p r)) = getBuffer p # pool w
    \<and> heap (snd (Send w wd p r))
        = put_bytes (heap w) (getBuffer p) (replicate (PacketLen p) 0)
    \<and> fst (Send w wd p r)
        = (if send_success r = 0 then Inl (DriverError (send_err r)) else Inr (send_len r)))
   \<and> (\<not> open wd' \<longrightarrow> Send w wd' p r = (Inl HandleClosed, w))"
  using Send_pooled[of wd p w r] Send_closed[of wd' w p r] by simp

lemma ex_packet_facts:
  "0 < len (Packet.Raw ex_packet)" "len (getBuffer ex_packet) = PacketBufferSize"
  "PacketLen ex_packet \<le> PacketBufferSize" "PacketLen ex_packet = 44"
  "getBuffer ex_packet = ex_buffer"
  by (simp_all add: ex_packet_def getBuffer_def ex_buffer_def PacketBufferSize_def)

theorem Send_releases_buffer_when_open_witness:
  "open ex_open \<and> \<not> open ex_closed \<and> 0 < len (Packet.Raw ex_packet)
   \<and> len (getBuffer ex_packet) = PacketBufferSize \<and> PacketLen ex_packet \<le> PacketBufferSize
   \<and> pool (snd (Send ex_world ex_open ex_packet ex_send_fail)) = [ex_buffer]
   \<and> fst (Send ex_world ex_open ex_packet ex_send_fail) = Inl (DriverError 5)
   \<and> Send ex_world ex_closed ex_packet ex_send_fail = (Inl HandleClosed, ex_world)"
  using Send_releases_buffer_when_open[of ex_open ex_packet ex_world ex_send_fail ex_closed] ex_packet_facts
  by (simp add: ex_open_def ex_closed_def ex_world_def ex_send_fail_def)

text \<open>On a closed session the buffer of the example packet does not reach the pool.\<close>

theorem Send_closed_keeps_buffer_counterexample:
  "\<not> open ex_closed
   \<and> len (getBuffer ex_packet) = PacketBufferSize
   \<and> pool ex_world = []
   \<and> Send ex_world ex_closed ex_packet ex_send_ok = (Inl HandleClosed, ex_world)
   \<and> getBuffer ex_packet \<notin> set (pool (snd (Send ex_world ex_closed ex_packet ex_send_ok)))"
  using ex_packet_facts
  by (simp add: Send_def ex_closed_def ex_world_def)










section \<open>The length invariant\<close>

lemma ex_recv: "Recv 0 ex_empty_world ex_open ex_recv_reply = (Inr ex_packet, ex_world)"
  by (simp add: Recv_def GetBuffer_def ex_empty_world_def ex_open_def ex_recv_reply_def
      index_def put_bytes_def blit_def slice_to_def reslice_def ex_packet_def ex_world_def
      ex_mem_def ex_buffer_def PacketBufferSize_def ex_bytes_def Let_def)

lemma Recv_inv:
  assumes "Recv sel w wd r = (Inr p, w')"
  shows "PacketLen p = len (Packet.Raw p)"
  using assms
  by (auto simp: Recv_def Let_def slice_to_def reslice_def
      split: if_splits prod.splits option.splits)

lemma VerifyParsed_frame:
  assumes "VerifyParsed m p = Inr p'"
  shows "Packet.Raw p' = Packet.Raw p" "PacketLen p' = PacketLen p"
  using assms ParseHeaders_frame(1,2)[of m p p']
  by (auto simp: VerifyParsed_def split: if_splits)

lemma Packet_SrcPort_frame:
  assumes "Packet_SrcPort g m p = (res, p')"
  shows "Packet.Raw p' = Packet.Raw p \<and> PacketLen p' = PacketLen p"
  using assms VerifyParsed_frame[of m p]
  by (auto simp: Packet_SrcPort_def split: sum.splits option.splits)

lemma Packet_DstPort_frame:
  assumes "Packet_DstPort g m p = (res, p')"
  shows "Packet.Raw p' = Packet.Raw p \<and> PacketLen p' = PacketLen p"
  using assms VerifyParsed_frame[of m p]
  by (auto simp: Packet_DstPort_def split: sum.splits option.splits)

lemma Packet_SetSrcPort_frame:
  assumes "Packet_SetSrcPort st m p port = (e, m', p')"
  shows "Packet.Raw p' = Packet.Raw p \<and> PacketLen p' = PacketLen p"
  using assms VerifyParsed_frame[of m p]
  by (auto simp: Packet_SetSrcPort_def split: sum.splits option.splits prod.splits)

lemma Packet_SetDstPort_frame:
  assumes "Packet_SetDstPort st m p port = (e, m', p')"
  shows "Packet.Raw p' = Packet.Raw p \<and> PacketLen p' = PacketLen p"
  using assms VerifyParsed_frame[of m p]
  by (auto simp: Packet_SetDstPort_def split: sum.splits option.splits prod.splits)

lemma Packet_SetIP_frame:
  assumes "Packet_SetIP ist m p ip = Inr (m', p')"
  shows "Packet.Raw p' = Packet.Raw p \<and> PacketLen p' = PacketLen p"
  using assms VerifyParsed_frame[of m p]
  by (auto simp: Packet_SetIP_def split: sum.splits option.splits prod.splits)

lemma UpdateTCPHeader_inv:
  assumes "UpdateTCPHeader m p = Inr (m', p')" "PacketLen p = len (Packet.Raw p)"
  shows "PacketLen p' = len (Packet.Raw p')"
proof (cases "NextHeader p")
  case None
  with assms show ?thesis by (simp add: UpdateTCPHeader_def)
next
  case (Some nh)
  show ?thesis
  proof (cases nh)
    case (TCP t)
    with Some assms show ?thesis
      by (auto simp: UpdateTCPHeader_def Let_def
          split: option.splits if_splits prod.splits IPHeader.splits sum.splits)
  qed (use Some assms in \<open>auto simp: UpdateTCPHeader_def\<close>)
qed

lemma HelperCalcChecksum_frame:
  assumes "HelperCalcChecksum m p cr = (e, m', p')"
  shows "Packet.Raw p' = Packet.Raw p \<and> PacketLen p' = PacketLen p"
  using assms
  by (auto simp: HelperCalcChecksum_def index_def Let_def split: if_splits)

text \<open>
  C2. Every packet a program can hold, as \<open>Recv\<close> builds it and after any sequence of
  the public operations (parsing, port and address accessors, the TCP setters,
  \<open>SetPayload\<close>, \<open>UpdateTCPHeader\<close>, the checksum helper), has \<open>PacketLen = len(Raw)\<close>.
\<close>

theorem PacketLen_is_len_Raw:
  assumes "reachable m p"
  shows "PacketLen p = len (Packet.Raw p)"
  using assms
proof (induction rule: reachable.induct)
  case (r_recv sel w wd r p w')
  then show ?case by (rule Recv_inv)
next
  case (r_parse m p p')
  then show ?case using ParseHeaders_frame(1,2)[of m p p'] by simp
next
  case (r_verify m p p')
  then show ?case using VerifyParsed_frame[of m p p'] by simp
next
  case (r_src_port m p g res p')
  then show ?case using Packet_SrcPort_frame[of g m p res p'] by simp
next
  case (r_dst_port m p g res p')
  then show ?case using Packet_DstPort_frame[of g m p res p'] by simp
next
  case (r_set_src_port m p st port e m' p')
  then show ?case using Packet_SetSrcPort_frame[of st m p port e m' p'] by simp
next
  case (r_set_dst_port m p st port e m' p')
  then show ?case using Packet_SetDstPort_frame[of st m p port e m' p'] by simp
next
  case (r_set_ip m p ist ip m' p')
  then show ?case using Packet_SetIP_frame[of ist m p ip m' p'] by simp
next
  case (r_update m p m' p')
  then show ?case using UpdateTCPHeader_inv[of m p m' p'] by simp
next
  case (r_checksum m p cr e m' p')
  then show ?case using HelperCalcChecksum_frame[of m p cr e m' p'] by simp
qed simp_all

lemma ex_reachable: "reachable ex_mem ex_packet"
  using r_recv[OF ex_recv] by (simp add: ex_world_def)

lemma ex_parsed_reachable: "reachable ex_mem ex_parsed"
  using r_parse[OF ex_reachable ex_parse] .

theorem PacketLen_is_len_Raw_witness:
  "reachable ex_mem ex_parsed \<and> PacketLen ex_parsed = len (Packet.Raw ex_parsed)
   \<and> PacketLen ex_parsed = 44"
  using PacketLen_is_len_Raw[OF ex_parsed_reachable] ex_parsed_reachable
  by (simp add: ex_parsed_def ex_packet_def)

section \<open>Replacing the TCP payload: lengths\<close>

lemma mask8: "(0xff :: 16 word) = mask 8"
  by (simp add: mask_eq_exp_minus_1)

lemma be16: "ucast (ucast (v AND 0xff :: 16 word) :: byte)
     OR push_bit 8 (ucast (ucast (drop_bit 8 v) :: byte)) = (v :: 16 word)"
  unfolding mask8
  by (rule bit_word_eqI) (auto simp: bit_simps)

lemma SetTotalLen_TotalLen:
  assumes "3 < len (HeaderView.Raw v)" "len (HeaderView.Raw v) \<le> cap (HeaderView.Raw v)"
    "arr (HeaderView.Raw v) < length m"
    "off (HeaderView.Raw v) + len (HeaderView.Raw v) \<le> length (m ! arr (HeaderView.Raw v))"
  shows "\<exists>m'. SetTotalLen m v x = Inr (m', v\<lparr>HeaderView.Modified := True\<rparr>)
          \<and> TotalLen m' (v\<lparr>HeaderView.Modified := True\<rparr>) = Inr x"
  using assms
  by (simp add: SetTotalLen_def TotalLen_def store_def reslice_def Uint16_def index_def Let_def
      be16 numeral_3_eq_3)

lemma append_slice_len: "len (snd (append_slice m s v)) = len s + len v"
  by (simp add: append_slice_def Let_def)

lemma nth_update_length:
  "a < length m \<Longrightarrow> length (m[i := blit (m ! i) pos bs] ! a) = length (m ! a)"
  by (cases "i = a") simp_all

lemma append_slice_mem:
  "length m \<le> length (fst (append_slice m s v))"
  "a < length m \<Longrightarrow> length (fst (append_slice m s v) ! a) = length (m ! a)"
  by (auto simp: append_slice_def Let_def nth_append nth_update_length)

lemma store_mem:
  assumes "store m s i b = Some m'"
  shows "length m' = length m" "length (m' ! a) = length (m ! a)"
proof -
  have e: "m' = m[arr s := (m ! arr s)[off s + i := b]]"
    using assms by (simp add: store_def split: if_splits)
  show "length m' = length m" using e by simp
  show "length (m' ! a) = length (m ! a)"
  proof (cases "arr s = a \<and> a < length m")
    case True
    then show ?thesis using e by simp
  next
    case False
    then show ?thesis using e
      by (cases "arr s < length m") (auto simp: nth_list_update list_update_beyond)
  qed
qed

lemma ParseNextHeader_TCP:
  assumes "ParseNextHeader m p = Inr (Some (TCP t))"
  shows "hdrLen p \<le> len (Packet.Raw p)"
    "NewTCPHeader m \<lparr>arr = arr (Packet.Raw p), off = off (Packet.Raw p) + hdrLen p,
        len = len (Packet.Raw p) - hdrLen p, cap = cap (Packet.Raw p) - hdrLen p\<rparr> = Inr t"
  using assms
  by (auto simp: ParseNextHeader_def Let_def slice_from_def reslice_def
      split: if_splits option.splits sum.splits)

lemma ParseIPHeader_IPv4:
  assumes "ParseIPHeader m p = Inr p2" "IpHdr p2 = Some (IPv4Header v)"
  shows "hdrLen p2 \<le> cap (Packet.Raw p)"
    "HeaderView.Raw v = \<lparr>arr = arr (Packet.Raw p), off = off (Packet.Raw p),
        len = hdrLen p2, cap = cap (Packet.Raw p)\<rparr>"
  using ParseIPHeader_Inr[OF assms(1)] assms(2)
  by (auto simp: NewIPv4Header_def slice_to_def reslice_def
      split: if_splits option.splits)

lemma parsed_ipv4_tcp:
  assumes "ParseHeaders m p0 = Inr p" "IpHdr p = Some (IPv4Header v)"
    "NextHeader p = Some (TCP t)"
  shows "Packet.Raw p = Packet.Raw p0"
    "hdrLen p \<le> len (Packet.Raw p)"
    "HeaderView.Raw v = \<lparr>arr = arr (Packet.Raw p), off = off (Packet.Raw p),
        len = hdrLen p, cap = cap (Packet.Raw p)\<rparr>"
    "NewTCPHeader m \<lparr>arr = arr (Packet.Raw p), off = off (Packet.Raw p) + hdrLen p,
        len = len (Packet.Raw p) - hdrLen p, cap = cap (Packet.Raw p) - hdrLen p\<rparr> = Inr t"
proof -
  obtain p2 nh where a: "ParseIPHeader m p0 = Inr p2" and n: "ParseNextHeader m p2 = Inr nh"
    and b: "p = p2\<lparr>NextHeader := nh, parsed := True\<rparr>"
    using ParseHeaders_Inr[OF assms(1)] by blast
  have r: "Packet.Raw p2 = Packet.Raw p0" using ParseIPHeader_frame(1)[OF a] .
  have i: "IpHdr p2 = Some (IPv4Header v)" using assms(2) b by simp
  have t: "ParseNextHeader m p2 = Inr (Some (TCP t))" using assms(3) b n by simp
  show "Packet.Raw p = Packet.Raw p0" using b r by simp
  show "hdrLen p \<le> len (Packet.Raw p)" using ParseNextHeader_TCP(1)[OF t] b by simp
  show "HeaderView.Raw v = \<lparr>arr = arr (Packet.Raw p), off = off (Packet.Raw p),
        len = hdrLen p, cap = cap (Packet.Raw p)\<rparr>"
    using ParseIPHeader_IPv4(2)[OF a i] b r by simp
  show "NewTCPHeader m \<lparr>arr = arr (Packet.Raw p), off = off (Packet.Raw p) + hdrLen p,
        len = len (Packet.Raw p) - hdrLen p, cap = cap (Packet.Raw p) - hdrLen p\<rparr> = Inr t"
    using ParseNextHeader_TCP(2)[OF t] b by simp
qed

lemma sm_parse: "ParseHeaders sm_mem sm_packet = Inr sm_parsed"
  by (simp add: ParseHeaders_def ParseIPHeader_def ParseNextHeader_def NewIPv4Header_def
      NewTCPHeader_def index_def slice_from_def slice_to_def reslice_def sm_mem_def
      sm_packet_def sm_parsed_def sm_ip_def sm_tcp_def ex_bytes_def ICMPv4_def
      TCP_proto_def UDP_def ICMPv6_def Let_def)

lemma sm_realloc:
  "replaced_lengths (ReplacePayload sm_mem sm_parsed sm_val6) = Inr (46, 46, Inr 44)"
  by (simp add: replaced_lengths_def ReplacePayload_def SetPayload_def UpdateTCPHeader_def
      SetTotalLen_def total_length_field_def Uint16_def store_def append_slice_def cells_def
      blit_def index_def slice_from_def slice_to_def reslice_def sm_mem_def sm_parsed_def
      sm_packet_def sm_ip_def sm_tcp_def sm_val6_def ex_bytes_def Let_def nth_append)

lemma sm_set_pending:
  "SetPayload sm_mem sm_tcp sm_val2 = Inr (sm_mem_pending, sm_tcp_pending)"
  by (simp add: SetPayload_def append_slice_def cells_def
      blit_def index_def slice_from_def slice_to_def reslice_def sm_mem_def sm_mem_pending_def
      sm_tcp_def sm_tcp_pending_def sm_val2_def ex_bytes_def Let_def)

lemma sm_pending_replace:
  "replaced_lengths (ReplacePayload sm_mem_pending sm_pending sm_val2) = Inr (42, 42, Inr 42)"
  by (simp add: replaced_lengths_def ReplacePayload_def SetPayload_def UpdateTCPHeader_def
      SetTotalLen_def total_length_field_def Uint16_def store_def append_slice_def cells_def
      copy_slice_def put_bytes_def
      blit_def index_def slice_from_def slice_to_def reslice_def sm_mem_pending_def
      sm_pending_def sm_parsed_def sm_tcp_pending_def
      sm_packet_def sm_ip_def sm_val2_def ex_bytes_def Let_def nth_append)

lemma views_in_step_views:
  assumes "views_in_step m p" "NextHeader p = Some (TCP t)"
  shows "\<exists>v. IpHdr p = Some (IPv4Header v)"
proof (cases "IpHdr p")
  case None
  then show ?thesis using assms by (simp add: views_in_step_def)
next
  case (Some ih)
  then show ?thesis using assms by (cases ih) (simp_all add: views_in_step_def)
qed

lemma views_in_step_unfold:
  assumes "IpHdr p = Some (IPv4Header v)" "NextHeader p = Some (TCP t)"
  shows "views_in_step m p =
      (len (Packet.Raw p) \<le> cap (Packet.Raw p)
       \<and> slice_to (Packet.Raw p) (hdrLen p) = Some (HeaderView.Raw v)
       \<and> slice_from (Packet.Raw p) (hdrLen p) = Some (TCPHeader.Raw t)
       \<and> (case index m (TCPHeader.Raw t) 12 of
             None \<Rightarrow> False
           | Some b \<Rightarrow>
               (case slice_from (TCPHeader.Raw t) (unat (drop_bit 4 b * 4)) of
                  None \<Rightarrow> False
                | Some pl \<Rightarrow> len (Payload t) = len pl)))"
  using assms by (simp add: views_in_step_def)

lemma views_in_step_D:
  assumes "views_in_step m p" "NextHeader p = Some (TCP t)"
  shows "\<exists>v b. IpHdr p = Some (IPv4Header v)
      \<and> len (Packet.Raw p) \<le> cap (Packet.Raw p) \<and> hdrLen p \<le> len (Packet.Raw p)
      \<and> HeaderView.Raw v = \<lparr>arr = arr (Packet.Raw p), off = off (Packet.Raw p),
            len = hdrLen p, cap = cap (Packet.Raw p)\<rparr>
      \<and> TCPHeader.Raw t = \<lparr>arr = arr (Packet.Raw p), off = off (Packet.Raw p) + hdrLen p,
            len = len (Packet.Raw p) - hdrLen p, cap = cap (Packet.Raw p) - hdrLen p\<rparr>
      \<and> index m (TCPHeader.Raw t) 12 = Some b
      \<and> unat (drop_bit 4 b * 4) \<le> len (TCPHeader.Raw t)
      \<and> len (Payload t) + unat (drop_bit 4 b * 4) = len (TCPHeader.Raw t)"
proof -
  obtain v where i: "IpHdr p = Some (IPv4Header v)"
    using views_in_step_views[OF assms] by blast
  note u = views_in_step_unfold[OF i assms(2), of m, THEN iffD1, OF assms(1)]
  have c: "len (Packet.Raw p) \<le> cap (Packet.Raw p)" using u by simp
  have st: "slice_to (Packet.Raw p) (hdrLen p) = Some (HeaderView.Raw v)" using u by simp
  have sf: "slice_from (Packet.Raw p) (hdrLen p) = Some (TCPHeader.Raw t)" using u by simp
  have h: "hdrLen p \<le> len (Packet.Raw p)"
    using sf by (simp add: slice_from_def reslice_def split: if_splits)
  have rv: "HeaderView.Raw v = \<lparr>arr = arr (Packet.Raw p), off = off (Packet.Raw p),
            len = hdrLen p, cap = cap (Packet.Raw p)\<rparr>"
    using st by (auto simp: slice_to_def reslice_def split: if_splits)
  have rt: "TCPHeader.Raw t = \<lparr>arr = arr (Packet.Raw p), off = off (Packet.Raw p) + hdrLen p,
            len = len (Packet.Raw p) - hdrLen p, cap = cap (Packet.Raw p) - hdrLen p\<rparr>"
    using sf by (auto simp: slice_from_def reslice_def split: if_splits)
  obtain b where b: "index m (TCPHeader.Raw t) 12 = Some b"
    using u by (cases "index m (TCPHeader.Raw t) 12") simp_all
  obtain pl where pl: "slice_from (TCPHeader.Raw t) (unat (drop_bit 4 b * 4)) = Some pl"
    and lp: "len (Payload t) = len pl"
    using u b by (cases "slice_from (TCPHeader.Raw t) (unat (drop_bit 4 b * 4))") simp_all
  have th: "unat (drop_bit 4 b * 4) \<le> len (TCPHeader.Raw t)"
    using pl by (simp add: slice_from_def reslice_def split: if_splits)
  have "len pl = len (TCPHeader.Raw t) - unat (drop_bit 4 b * 4)"
    using pl by (auto simp: slice_from_def reslice_def split: if_splits)
  then have e: "len (Payload t) + unat (drop_bit 4 b * 4) = len (TCPHeader.Raw t)"
    using lp th by simp
  show ?thesis using i c h rv rt b th e by blast
qed

lemma parsed_views_in_step:
  assumes "ParseHeaders m p0 = Inr p" "IpHdr p = Some (IPv4Header v)"
    "NextHeader p = Some (TCP t)" "len (Packet.Raw p) \<le> cap (Packet.Raw p)"
  shows "views_in_step m p"
proof -
  note s = parsed_ipv4_tcp[OF assms(1,2,3)]
  note f = NewTCPHeader_fresh[OF s(4)]
  have a: "slice_to (Packet.Raw p) (hdrLen p) = Some (HeaderView.Raw v)"
    using s(2,3) assms(4) by (simp add: slice_to_def reslice_def)
  have b: "slice_from (Packet.Raw p) (hdrLen p) = Some (TCPHeader.Raw t)"
    using s(2) f(1) assms(4) by (simp add: slice_from_def reslice_def)
  have c: "index m (TCPHeader.Raw t) 12
      = Some (m ! arr (Packet.Raw p) ! (off (Packet.Raw p) + hdrLen p + 12))"
    using f(1,3) by (simp add: index_def)
  have d: "slice_from (TCPHeader.Raw t)
      (unat (drop_bit 4 (m ! arr (Packet.Raw p) ! (off (Packet.Raw p) + hdrLen p + 12)) * 4))
      = Some (Payload t)"
    using f(1,5) by simp
  show ?thesis
    using assms(2,3,4) a b c d by (simp add: views_in_step_def)
qed

lemma SetPayload_same_step:
  assumes "index m (TCPHeader.Raw t) 12 = Some b"
    "unat (drop_bit 4 b * 4) \<le> len (TCPHeader.Raw t)"
    "len (TCPHeader.Raw t) \<le> cap (TCPHeader.Raw t)" "len val = len (Payload t)"
  shows "\<exists>m1. SetPayload m t val = Inr (m1, t\<lparr>Payload := val, TCPHeader.Modified := True\<rparr>)"
  using assms by (simp add: SetPayload_def slice_from_def reslice_def Let_def)

lemma SetPayload_diff_step:
  assumes "index m (TCPHeader.Raw t) 12 = Some b"
    "unat (drop_bit 4 b * 4) \<le> len (TCPHeader.Raw t)"
    "len (TCPHeader.Raw t) \<le> cap (TCPHeader.Raw t)" "len val \<noteq> len (Payload t)"
    "len (Payload t) + unat (drop_bit 4 b * 4) = len (TCPHeader.Raw t)"
  shows "\<exists>m1 r1. SetPayload m t val
            = Inr (m1, t\<lparr>TCPHeader.Raw := r1, Payload := val, TCPHeader.Modified := True\<rparr>)
         \<and> len r1 + len (Payload t) = len (TCPHeader.Raw t) + len val
         \<and> length m \<le> length m1
         \<and> (\<forall>a<length m. length (m1 ! a) = length (m ! a))"
proof -
  let ?th = "unat (drop_bit 4 b * 4)"
  let ?pre = "\<lparr>arr = arr (TCPHeader.Raw t), off = off (TCPHeader.Raw t), len = ?th,
                cap = cap (TCPHeader.Raw t)\<rparr>"
  have pre: "slice_to (TCPHeader.Raw t) ?th = Some ?pre"
    using assms(2,3) by (simp add: slice_to_def reslice_def)
  obtain m1 r1 where ap: "append_slice m ?pre val = (m1, r1)" by (cases "append_slice m ?pre val")
  have l: "len r1 = ?th + len val" using append_slice_len[of m ?pre val] ap by simp
  have m1: "length m \<le> length m1" "\<forall>a<length m. length (m1 ! a) = length (m ! a)"
    using append_slice_mem(1)[of m ?pre val]
      append_slice_mem(2)[where m = m and s = ?pre and v = val] ap by simp_all
  have "SetPayload m t val
            = Inr (m1, t\<lparr>TCPHeader.Raw := r1, Payload := val, TCPHeader.Modified := True\<rparr>)"
    using assms(1,4) pre ap by (simp add: SetPayload_def Let_def)
  moreover have "len r1 + len (Payload t) = len (TCPHeader.Raw t) + len val"
    using l assms(5) by simp
  ultimately show ?thesis using m1 by blast
qed

lemma UpdateTCPHeader_same:
  assumes "NextHeader p = Some (TCP t1)" "hdrLen p \<le> len (Packet.Raw p)"
    "len (Packet.Raw p) \<le> cap (Packet.Raw p)"
    "len (TCPHeader.Raw t1) = len (Packet.Raw p) - hdrLen p"
  shows "\<exists>m2. UpdateTCPHeader m1 p = Inr (m2, p)"
  using assms by (simp add: UpdateTCPHeader_def slice_from_def reslice_def Let_def)

lemma append_slice_in_place:
  assumes "len s + len v \<le> cap s"
  shows "snd (append_slice m s v) = s\<lparr>len := len s + len v\<rparr>"
  using assms by (simp add: append_slice_def Let_def)

lemma total_length_field_view:
  assumes "arr (Packet.Raw p) = arr (HeaderView.Raw v)" "off (Packet.Raw p) = off (HeaderView.Raw v)"
    "cap (Packet.Raw p) = cap (HeaderView.Raw v)"
  shows "total_length_field m p = TotalLen m v"
  using assms by (simp add: total_length_field_def TotalLen_def reslice_def)

lemma UpdateTCPHeader_diff:
  assumes "NextHeader p = Some (TCP t1)" "hdrLen p \<le> len (Packet.Raw p)"
    "len (Packet.Raw p) \<le> cap (Packet.Raw p)"
    "len (TCPHeader.Raw t1) \<noteq> len (Packet.Raw p) - hdrLen p"
    "IpHdr p = Some (IPv4Header v)"
    "HeaderView.Raw v = \<lparr>arr = arr (Packet.Raw p), off = off (Packet.Raw p),
        len = hdrLen p, cap = cap (Packet.Raw p)\<rparr>"
    "4 \<le> hdrLen p" "arr (Packet.Raw p) < length m1"
    "off (Packet.Raw p) + len (Packet.Raw p) \<le> length (m1 ! arr (Packet.Raw p))"
  shows "\<exists>m2 p2. UpdateTCPHeader m1 p = Inr (m2, p2)
         \<and> PacketLen p2 = len (Packet.Raw p2)
         \<and> len (Packet.Raw p2) = hdrLen p + len (TCPHeader.Raw t1)
         \<and> (len (Packet.Raw p2) \<le> cap (Packet.Raw p) \<longrightarrow>
               total_length_field m2 p2 = Inr (of_nat (len (Packet.Raw p2))))"
proof -
  let ?raw = "Packet.Raw p"
  let ?pre = "\<lparr>arr = arr ?raw, off = off ?raw, len = hdrLen p, cap = cap ?raw\<rparr>"
  have sf: "slice_from ?raw (hdrLen p)
      = Some \<lparr>arr = arr ?raw, off = off ?raw + hdrLen p, len = len ?raw - hdrLen p,
              cap = cap ?raw - hdrLen p\<rparr>"
    using assms(2,3) by (simp add: slice_from_def reslice_def)
  have st: "slice_to ?raw (hdrLen p) = Some ?pre"
    using assms(2,3) by (simp add: slice_to_def reslice_def)
  obtain ma r2 where ap: "append_slice m1 ?pre (TCPHeader.Raw t1) = (ma, r2)"
    by (cases "append_slice m1 ?pre (TCPHeader.Raw t1)")
  have l: "len r2 = hdrLen p + len (TCPHeader.Raw t1)"
    using append_slice_len[of m1 ?pre "TCPHeader.Raw t1"] ap by simp
  have ma: "arr ?raw < length ma" "length (ma ! arr ?raw) = length (m1 ! arr ?raw)"
    using append_slice_mem(1)[of m1 ?pre "TCPHeader.Raw t1"]
      append_slice_mem(2)[where m = m1 and s = ?pre and v = "TCPHeader.Raw t1"
        and a = "arr ?raw"] ap assms(8) by simp_all
  have w: "3 < len (HeaderView.Raw v)" "len (HeaderView.Raw v) \<le> cap (HeaderView.Raw v)"
    "arr (HeaderView.Raw v) < length ma"
    "off (HeaderView.Raw v) + len (HeaderView.Raw v) \<le> length (ma ! arr (HeaderView.Raw v))"
    using assms(2,3,6,7,9) ma by simp_all
  obtain m2 where s: "SetTotalLen ma v (of_nat (len r2)) = Inr (m2, v\<lparr>HeaderView.Modified := True\<rparr>)"
    and tl: "TotalLen m2 (v\<lparr>HeaderView.Modified := True\<rparr>) = Inr (of_nat (len r2))"
    using SetTotalLen_TotalLen[OF w, where x = "of_nat (len r2)"] by blast
  let ?p2 = "p\<lparr>Packet.Raw := r2,
                IpHdr := Some (IPv4Header (v\<lparr>HeaderView.Modified := True\<rparr>)),
                PacketLen := len r2\<rparr>"
  have u: "UpdateTCPHeader m1 p = Inr (m2, ?p2)"
    using assms(1,4,5) sf st ap s by (simp add: UpdateTCPHeader_def Let_def)
  have f: "len r2 \<le> cap ?raw \<longrightarrow> total_length_field m2 ?p2 = Inr (of_nat (len r2))"
  proof
    assume c: "len r2 \<le> cap ?raw"
    have "r2 = ?pre\<lparr>len := len ?pre + len (TCPHeader.Raw t1)\<rparr>"
      using append_slice_in_place[of ?pre "TCPHeader.Raw t1" m1] ap c l by simp
    then have "arr r2 = arr ?raw" "off r2 = off ?raw" "cap r2 = cap ?raw" by simp_all
    then have "total_length_field m2 ?p2 = TotalLen m2 (v\<lparr>HeaderView.Modified := True\<rparr>)"
      using assms(6) by (intro total_length_field_view) simp_all
    then show "total_length_field m2 ?p2 = Inr (of_nat (len r2))" using tl by simp
  qed
  show ?thesis using u l f by (intro exI[of _ m2] exI[of _ ?p2]) simp
qed

lemma ReplacePayload_same:
  assumes "views_in_step m p" "NextHeader p = Some (TCP t)" "len val = len (Payload t)"
  shows "\<exists>m2. ReplacePayload m p val
           = Inr (m2, p\<lparr>NextHeader := Some (TCP (t\<lparr>Payload := val, TCPHeader.Modified := True\<rparr>))\<rparr>)"
proof -
  obtain v b where d: "IpHdr p = Some (IPv4Header v)"
      "len (Packet.Raw p) \<le> cap (Packet.Raw p)" "hdrLen p \<le> len (Packet.Raw p)"
      "TCPHeader.Raw t = \<lparr>arr = arr (Packet.Raw p), off = off (Packet.Raw p) + hdrLen p,
            len = len (Packet.Raw p) - hdrLen p, cap = cap (Packet.Raw p) - hdrLen p\<rparr>"
      "index m (TCPHeader.Raw t) 12 = Some b"
      "unat (drop_bit 4 b * 4) \<le> len (TCPHeader.Raw t)"
    using views_in_step_D[OF assms(1,2)] by blast
  have c: "len (TCPHeader.Raw t) \<le> cap (TCPHeader.Raw t)" using d(2,4) by simp
  obtain m1 where sp: "SetPayload m t val = Inr (m1, t\<lparr>Payload := val, TCPHeader.Modified := True\<rparr>)"
    using SetPayload_same_step[OF d(5,6) c assms(3)] by blast
  let ?p1 = "p\<lparr>NextHeader := Some (TCP (t\<lparr>Payload := val, TCPHeader.Modified := True\<rparr>))\<rparr>"
  obtain m2 where "UpdateTCPHeader m1 ?p1 = Inr (m2, ?p1)"
    using UpdateTCPHeader_same[of ?p1 "t\<lparr>Payload := val, TCPHeader.Modified := True\<rparr>" m1]
      d(2,3,4) by auto
  then show ?thesis using sp assms(2) by (simp add: ReplacePayload_def)
qed

lemma ReplacePayload_diff:
  assumes "views_in_step m p" "NextHeader p = Some (TCP t)"
    "arr (Packet.Raw p) < length m"
    "off (Packet.Raw p) + len (Packet.Raw p) \<le> length (m ! arr (Packet.Raw p))"
    "4 \<le> hdrLen p" "len val \<noteq> len (Payload t)"
  shows "\<exists>m2 p2. ReplacePayload m p val = Inr (m2, p2)
         \<and> PacketLen p2 = len (Packet.Raw p2)
         \<and> len (Packet.Raw p2) + len (Payload t) = len (Packet.Raw p) + len val
         \<and> (len (Packet.Raw p2) \<le> cap (Packet.Raw p) \<longrightarrow>
               total_length_field m2 p2 = Inr (of_nat (len (Packet.Raw p2))))"
proof -
  obtain v b where d: "IpHdr p = Some (IPv4Header v)"
      "len (Packet.Raw p) \<le> cap (Packet.Raw p)" "hdrLen p \<le> len (Packet.Raw p)"
      "HeaderView.Raw v = \<lparr>arr = arr (Packet.Raw p), off = off (Packet.Raw p),
            len = hdrLen p, cap = cap (Packet.Raw p)\<rparr>"
      "TCPHeader.Raw t = \<lparr>arr = arr (Packet.Raw p), off = off (Packet.Raw p) + hdrLen p,
            len = len (Packet.Raw p) - hdrLen p, cap = cap (Packet.Raw p) - hdrLen p\<rparr>"
      "index m (TCPHeader.Raw t) 12 = Some b"
      "unat (drop_bit 4 b * 4) \<le> len (TCPHeader.Raw t)"
      "len (Payload t) + unat (drop_bit 4 b * 4) = len (TCPHeader.Raw t)"
    using views_in_step_D[OF assms(1,2)] by blast
  have c: "len (TCPHeader.Raw t) \<le> cap (TCPHeader.Raw t)" using d(2,5) by simp
  have lt: "len (TCPHeader.Raw t) = len (Packet.Raw p) - hdrLen p" using d(5) by simp
  obtain m1 r1 where sp: "SetPayload m t val
            = Inr (m1, t\<lparr>TCPHeader.Raw := r1, Payload := val, TCPHeader.Modified := True\<rparr>)"
    and l1: "len r1 + len (Payload t) = len (TCPHeader.Raw t) + len val"
    and m1: "length m \<le> length m1" "\<forall>a<length m. length (m1 ! a) = length (m ! a)"
    using SetPayload_diff_step[OF d(6,7) c assms(6) d(8)] by blast
  let ?t1 = "t\<lparr>TCPHeader.Raw := r1, Payload := val, TCPHeader.Modified := True\<rparr>"
  let ?p1 = "p\<lparr>NextHeader := Some (TCP ?t1)\<rparr>"
  have ne: "len (TCPHeader.Raw ?t1) \<noteq> len (Packet.Raw ?p1) - hdrLen ?p1"
    using l1 assms(6) lt by simp
  have wf: "arr (Packet.Raw ?p1) < length m1"
    "off (Packet.Raw ?p1) + len (Packet.Raw ?p1) \<le> length (m1 ! arr (Packet.Raw ?p1))"
    using assms(3,4) m1 by simp_all
  obtain m2 p2 where up: "UpdateTCPHeader m1 ?p1 = Inr (m2, p2)"
    and pl: "PacketLen p2 = len (Packet.Raw p2)"
    and l2: "len (Packet.Raw p2) = hdrLen ?p1 + len (TCPHeader.Raw ?t1)"
    and tl: "len (Packet.Raw p2) \<le> cap (Packet.Raw ?p1) \<longrightarrow>
               total_length_field m2 p2 = Inr (of_nat (len (Packet.Raw p2)))"
    using UpdateTCPHeader_diff[of ?p1 ?t1 v m1] d(1,2,3,4) assms(5) ne wf by auto
  have a: "ReplacePayload m p val = Inr (m2, p2)"
    using sp up assms(2) by (simp add: ReplacePayload_def)
  have e: "len (Packet.Raw p2) + len (Payload t) = len (Packet.Raw p) + len val"
    using l1 l2 lt d(3) by simp
  show ?thesis using a pl e tl by auto
qed

text \<open>
  C1, as the code has it. A packet that \<open>ParseHeaders\<close> returns as IPv4+TCP has its views
  in step with \<open>Raw\<close>. On every packet with the views in step (IP header of at least 4
  bytes, \<open>Raw\<close> inside its backing array) \<open>SetPayload\<close> then \<open>UpdateTCPHeader\<close> returns. With
  a payload of the same length \<open>PacketLen\<close> and \<open>Raw\<close> are unchanged. With a payload of
  another length \<open>PacketLen\<close> becomes \<open>len(Raw)\<close>, which is the old length minus the old
  payload plus the new one; and when that length fits the capacity of \<open>Raw\<close>, bytes 2 and
  3 of \<open>Raw\<close> hold \<open>len(Raw)\<close> as a 16-bit number: \<open>len(Raw) mod 65536\<close>, which is \<open>len(Raw)\<close>
  itself below 65536.
\<close>

theorem replace_payload_lengths:
  "(ParseHeaders m p0 = Inr q \<and> IpHdr q = Some (IPv4Header v) \<and> NextHeader q = Some (TCP u)
      \<and> len (Packet.Raw q) \<le> cap (Packet.Raw q) \<longrightarrow> views_in_step m q)
   \<and> (views_in_step m p \<and> NextHeader p = Some (TCP t)
        \<and> arr (Packet.Raw p) < length m
        \<and> off (Packet.Raw p) + len (Packet.Raw p) \<le> length (m ! arr (Packet.Raw p))
        \<and> 4 \<le> hdrLen p \<longrightarrow>
      (\<exists>m2 p2. ReplacePayload m p val = Inr (m2, p2)
         \<and> (len val = len (Payload t) \<longrightarrow>
                PacketLen p2 = PacketLen p \<and> Packet.Raw p2 = Packet.Raw p)
         \<and> (len val \<noteq> len (Payload t) \<longrightarrow>
                PacketLen p2 = len (Packet.Raw p2)
              \<and> len (Packet.Raw p2) + len (Payload t) = len (Packet.Raw p) + len val
              \<and> (len (Packet.Raw p2) \<le> cap (Packet.Raw p) \<longrightarrow>
                    total_length_field m2 p2 = Inr (of_nat (len (Packet.Raw p2)))
                  \<and> unat (of_nat (len (Packet.Raw p2)) :: 16 word)
                      = len (Packet.Raw p2) mod 65536
                  \<and> (len (Packet.Raw p2) < 65536 \<longrightarrow>
                        unat (of_nat (len (Packet.Raw p2)) :: 16 word)
                          = len (Packet.Raw p2))))))"
proof (intro conjI impI)
  assume "ParseHeaders m p0 = Inr q \<and> IpHdr q = Some (IPv4Header v)
      \<and> NextHeader q = Some (TCP u) \<and> len (Packet.Raw q) \<le> cap (Packet.Raw q)"
  then show "views_in_step m q" using parsed_views_in_step[of m p0 q v u] by blast
next
  assume h: "views_in_step m p \<and> NextHeader p = Some (TCP t)
        \<and> arr (Packet.Raw p) < length m
        \<and> off (Packet.Raw p) + len (Packet.Raw p) \<le> length (m ! arr (Packet.Raw p))
        \<and> 4 \<le> hdrLen p"
  show "\<exists>m2 p2. ReplacePayload m p val = Inr (m2, p2)
         \<and> (len val = len (Payload t) \<longrightarrow>
                PacketLen p2 = PacketLen p \<and> Packet.Raw p2 = Packet.Raw p)
         \<and> (len val \<noteq> len (Payload t) \<longrightarrow>
                PacketLen p2 = len (Packet.Raw p2)
              \<and> len (Packet.Raw p2) + len (Payload t) = len (Packet.Raw p) + len val
              \<and> (len (Packet.Raw p2) \<le> cap (Packet.Raw p) \<longrightarrow>
                    total_length_field m2 p2 = Inr (of_nat (len (Packet.Raw p2)))
                  \<and> unat (of_nat (len (Packet.Raw p2)) :: 16 word)
                      = len (Packet.Raw p2) mod 65536
                  \<and> (len (Packet.Raw p2) < 65536 \<longrightarrow>
                        unat (of_nat (len (Packet.Raw p2)) :: 16 word)
                          = len (Packet.Raw p2))))"
  proof (cases "len val = len (Payload t)")
    case True
    obtain m2 where "ReplacePayload m p val
           = Inr (m2, p\<lparr>NextHeader := Some (TCP (t\<lparr>Payload := val, TCPHeader.Modified := True\<rparr>))\<rparr>)"
      using ReplacePayload_same[of m p t val] h True by blast
    then show ?thesis using True by simp
  next
    case False
    obtain m2 p2 where r: "ReplacePayload m p val = Inr (m2, p2)"
         "PacketLen p2 = len (Packet.Raw p2)"
         "len (Packet.Raw p2) + len (Payload t) = len (Packet.Raw p) + len val"
         "len (Packet.Raw p2) \<le> cap (Packet.Raw p) \<longrightarrow>
               total_length_field m2 p2 = Inr (of_nat (len (Packet.Raw p2)))"
      using ReplacePayload_diff[of m p t val] h False by blast
    have u: "unat (of_nat (len (Packet.Raw p2)) :: 16 word) = len (Packet.Raw p2) mod 65536"
      by (simp add: unat_of_nat)
    show ?thesis using r u False by auto
  qed
qed

lemma ex_parsed_shape:
  "IpHdr ex_parsed = Some (IPv4Header ex_ip)" "NextHeader ex_parsed = Some (TCP ex_tcp)"
  "len (Packet.Raw ex_parsed) \<le> cap (Packet.Raw ex_parsed)"
  "arr (Packet.Raw ex_parsed) = 0" "off (Packet.Raw ex_parsed) = 0"
  "len (Packet.Raw ex_parsed) = 44" "4 \<le> hdrLen ex_parsed" "len (Payload ex_tcp) = 4"
  "PacketLen ex_parsed = 44" "cap (Packet.Raw ex_parsed) = 65575" "parsed ex_parsed"
  by (simp_all add: ex_parsed_def ex_packet_def ex_tcp_def)

lemma cx_big_parse: "ParseHeaders cx_big_mem ex_packet = Inr ex_parsed"
  by (simp add: ParseHeaders_def ParseIPHeader_def ParseNextHeader_def NewIPv4Header_def
      NewTCPHeader_def index_def slice_from_def slice_to_def reslice_def cx_big_mem_def
      ex_packet_def ex_parsed_def ex_ip_def ex_tcp_def ex_buffer_def ex_bytes_def ICMPv4_def
      TCP_proto_def UDP_def ICMPv6_def nth_append Let_def)

lemma cx_big_replace:
  "replaced_lengths (ReplacePayload cx_big_mem ex_parsed cx_big_val)
        = Inr (65540, 65540, Inr 4)"
proof -
  have s: "views_in_step cx_big_mem ex_parsed"
    using parsed_views_in_step[OF cx_big_parse ex_parsed_shape(1,2,3)] .
  have w: "arr (Packet.Raw ex_parsed) < length cx_big_mem"
    "off (Packet.Raw ex_parsed) + len (Packet.Raw ex_parsed)
       \<le> length (cx_big_mem ! arr (Packet.Raw ex_parsed))"
    "len cx_big_val \<noteq> len (Payload ex_tcp)" "len cx_big_val = 65500"
    by (simp_all add: ex_parsed_shape cx_big_mem_def cx_big_val_def ex_bytes_def)
  obtain m2 p2 where r: "ReplacePayload cx_big_mem ex_parsed cx_big_val = Inr (m2, p2)"
         "PacketLen p2 = len (Packet.Raw p2)"
         "len (Packet.Raw p2) + len (Payload ex_tcp) = len (Packet.Raw ex_parsed) + len cx_big_val"
         "len (Packet.Raw p2) \<le> cap (Packet.Raw ex_parsed) \<longrightarrow>
               total_length_field m2 p2 = Inr (of_nat (len (Packet.Raw p2)))"
    using ReplacePayload_diff[OF s ex_parsed_shape(2) w(1,2) ex_parsed_shape(7) w(3)]
    by blast
  have l: "len (Packet.Raw p2) = 65540" using r(3) w(4) ex_parsed_shape(6,8) by simp
  have t: "total_length_field m2 p2 = Inr 4" using r(4) l ex_parsed_shape(10) by simp
  show ?thesis using r(1,2) l t by (simp add: replaced_lengths_def)
qed

text \<open>
  Three packets on which C1 as stated fails. A payload of 65500 bytes fits the pooled
  buffer: \<open>Raw\<close> gets 65540 bytes and the total-length field reads 4. A packet with no spare
  capacity and a 6-byte payload: \<open>Raw\<close> moves to a new array of 46 bytes whose bytes 2 and
  3 still read 44. A parsed packet with a 2-byte \<open>SetPayload\<close> pending: the replacement
  by a payload of the same 2 bytes changes \<open>PacketLen\<close> from 44 to 42.
\<close>

theorem replace_payload_counterexample:
  "ParseHeaders cx_big_mem ex_packet = Inr ex_parsed
   \<and> len cx_big_val = 65500
   \<and> replaced_lengths (ReplacePayload cx_big_mem ex_parsed cx_big_val)
        = Inr (65540, 65540, Inr 4)
   \<and> ParseHeaders sm_mem sm_packet = Inr sm_parsed
   \<and> len sm_val6 = 6
   \<and> replaced_lengths (ReplacePayload sm_mem sm_parsed sm_val6) = Inr (46, 46, Inr 44)
   \<and> SetPayload sm_mem sm_tcp sm_val2 = Inr (sm_mem_pending, sm_tcp_pending)
   \<and> parsed sm_pending
   \<and> NextHeader sm_pending = Some (TCP sm_tcp_pending)
   \<and> len sm_val2 = len (Payload sm_tcp_pending)
   \<and> PacketLen sm_pending = 44
   \<and> replaced_lengths (ReplacePayload sm_mem_pending sm_pending sm_val2)
        = Inr (42, 42, Inr 42)"
  using cx_big_parse cx_big_replace sm_parse sm_realloc sm_set_pending sm_pending_replace
  by (simp add: cx_big_val_def sm_val6_def sm_val2_def sm_pending_def sm_parsed_def
      sm_packet_def sm_tcp_pending_def)

theorem replace_payload_lengths_witness:
  "ParseHeaders ex_mem ex_packet = Inr ex_parsed
   \<and> IpHdr ex_parsed = Some (IPv4Header ex_ip) \<and> NextHeader ex_parsed = Some (TCP ex_tcp)
   \<and> len (Packet.Raw ex_parsed) \<le> cap (Packet.Raw ex_parsed)
   \<and> views_in_step ex_mem ex_parsed
   \<and> arr (Packet.Raw ex_parsed) < length ex_mem
   \<and> off (Packet.Raw ex_parsed) + len (Packet.Raw ex_parsed)
        \<le> length (ex_mem ! arr (Packet.Raw ex_parsed))
   \<and> 4 \<le> hdrLen ex_parsed
   \<and> len ex_short_val \<noteq> len (Payload ex_tcp)
   \<and> (\<exists>m2 p2. ReplacePayload ex_mem ex_parsed ex_short_val = Inr (m2, p2)
          \<and> PacketLen p2 = 42 \<and> len (Packet.Raw p2) = 42
          \<and> total_length_field m2 p2 = Inr 42)
   \<and> (\<exists>m2 p2. ReplacePayload ex_mem ex_parsed (Payload ex_tcp) = Inr (m2, p2)
          \<and> PacketLen p2 = 44 \<and> Packet.Raw p2 = Packet.Raw ex_parsed)"
proof -
  have w: "arr (Packet.Raw ex_parsed) < length ex_mem"
    "off (Packet.Raw ex_parsed) + len (Packet.Raw ex_parsed)
       \<le> length (ex_mem ! arr (Packet.Raw ex_parsed))"
    "len ex_short_val \<noteq> len (Payload ex_tcp)" "len ex_short_val = 2"
    by (simp_all add: ex_parsed_shape ex_mem_def ex_short_val_def ex_bytes_def)
  have s: "views_in_step ex_mem ex_parsed"
    using replace_payload_lengths[of ex_mem ex_packet ex_parsed ex_ip ex_tcp ex_parsed ex_tcp ex_short_val]
      ex_parse ex_parsed_shape(1,2,3)
    by blast
  have a: "\<exists>m2 p2. ReplacePayload ex_mem ex_parsed ex_short_val = Inr (m2, p2)
          \<and> PacketLen p2 = 42 \<and> len (Packet.Raw p2) = 42
          \<and> total_length_field m2 p2 = Inr 42"
    using replace_payload_lengths[of ex_mem ex_packet ex_parsed ex_ip ex_tcp ex_parsed ex_tcp ex_short_val]
      s w ex_parsed_shape(2,6,7,8,10)
    by auto
  have b: "\<exists>m2 p2. ReplacePayload ex_mem ex_parsed (Payload ex_tcp) = Inr (m2, p2)
          \<and> PacketLen p2 = 44 \<and> Packet.Raw p2 = Packet.Raw ex_parsed"
    using replace_payload_lengths[of ex_mem ex_packet ex_parsed ex_ip ex_tcp ex_parsed ex_tcp "Payload ex_tcp"]
      s w(1,2) ex_parsed_shape(2,7,9)
    by auto
  show ?thesis using a b s ex_parse ex_parsed_shape(1,2,3,7) w(1,2,3) by blast
qed

end
